theory Spec2Isabelle
  imports Complex_Main
begin

section \<open>The sprite sheet generator of \<open>src/main.js\<close>\<close>

text \<open>
  \<open>generateSpriteFromDirectory\<close> scans a directory, reads the size of every image, lays
  the images out on a square grid of equal cells, composes them on one transparent canvas
  and writes the canvas and a JSON document with the position of every image.

  The model starts where \<open>imagesMetadata\<close> is complete (line 68): the directory listing, the
  extension filter and \<open>sharp(...).metadata()\<close> are the input boundary, so the input is the
  list of metadata records in the order of the listing; a directory has no two entries of
  one name, so the file names of these records (line 56) are pairwise distinct in every run
  of the program.

  JavaScript numbers are doubles. They are modelled by \<open>nat\<close> (counts and indices) and
  \<open>int\<close> (pixel sizes, padding, limit), with exact sums and products: that is what the
  code computes as long as every operand and every result of lines 73-76 is an integer of
  absolute value at most \<open>2 ^ 53\<close> (\<open>within_doubles\<close>); beyond it the code rounds, as
  \<open>layout_doubles\<close> does. \<open>Math.sqrt\<close> is the real square root (for the rounding see
  \<open>ceil_sqrt_rounded\<close> and \<open>floor_div_rounded\<close>). \<open>NaN\<close> and \<open>Infinity\<close> (a padding or
  limit that \<open>parseInt\<close> reads so) are not inputs of the model.
\<close>

subsection \<open>Data\<close>

type_synonym buffer = "nat list"

text \<open>
  One element of \<open>imagesMetadata\<close> (lines 54-60). The field \<open>path\<close> is never read again and
  is left out. The field \<open>image\<close> is the sharp handle; the only thing the code does with it is
  \<open>await image.toBuffer()\<close> (line 121), so it is modelled by what that call yields: the bytes,
  or \<open>None\<close> when the promise rejects.
\<close>

record ImageMeta =
  filename :: string
  width :: int
  height :: int
  image :: "buffer option"

text \<open>The options after \<open>parseInt\<close> (lines 179-180).\<close>

record options =
  name :: string
  padding :: int
  maxSize :: int

text \<open>The constants of lines 70-76.\<close>

record Layout =
  imageCount :: nat
  gridSize :: nat
  totalCells :: nat
  maxCellWidth :: int
  maxCellHeight :: int
  spriteWidth :: int
  spriteHeight :: int

text \<open>An element of \<open>composites\<close> (lines 120-124): \<open>{input, left, top}\<close>.\<close>

record composite =
  c_input :: buffer
  c_left :: int
  c_top :: int

text \<open>A value of \<open>positions\<close> (line 126): \<open>{x, y, width, height}\<close>.\<close>

record PlacementEntry =
  pos_x :: int
  pos_y :: int
  pos_width :: int
  pos_height :: int

text \<open>
  A JavaScript object with string keys, as \<open>positions\<close> is: the properties in the order
  in which they were first assigned, which is the order \<open>JSON.stringify\<close> prints them in.
  (File names with an image extension are never array indices, which JavaScript would
  order first.)
\<close>

type_synonym 'v object = "(string \<times> 'v) list"

text \<open>\<open>obj[k] = v\<close>: an existing property keeps its place and takes the new value, a new one
  is added at the end.\<close>

fun assign :: "string \<Rightarrow> 'v \<Rightarrow> 'v object \<Rightarrow> 'v object" where
  "assign k v [] = [(k, v)]"
| "assign k v ((k', v') # ps) = (if k' = k then (k, v) # ps else (k', v') # assign k v ps)"

text \<open>\<open>obj[k]\<close>, with \<open>None\<close> for \<open>undefined\<close>.\<close>

definition lookup :: "'v object \<Rightarrow> string \<Rightarrow> 'v option" where
  "lookup ps k = map_of ps k"

definition keys :: "'v object \<Rightarrow> string list" where
  "keys ps = map fst ps"

text \<open>The object written to the JSON file (lines 139-145).\<close>

record jsonData =
  json_spriteWidth :: int
  json_spriteHeight :: int
  json_gridSize :: nat
  json_imageCount :: nat
  json_images :: "PlacementEntry object"

text \<open>The sharp pipeline saved as the PNG file: the blank canvas of lines 101-108 (its four
  channels and transparent background are constants) with the layers of
  \<open>composite(composites)\<close> (line 135). What sharp draws from it is not in the source.\<close>

record sprite =
  create_width :: int
  create_height :: int
  layers :: "composite list"

datatype artifact = PngFile sprite | JsonFile jsonData

text \<open>
  Every failure ends in \<open>process.exit(1)\<close>; the three kinds are told apart by where they
  happen: no image in the directory (lines 33-36), the sheet larger than the limit
  (lines 78-85), and an exception caught at line 161.
\<close>

datatype error = EmptyInputSet | SizeExceeded | CompositionError

text \<open>
  What a run leaves behind: how it ended and the files it wrote, in order, each under its
  name in the output directory (the directory itself, made at lines 23-25, is not
  recorded). The PNG file is written first (line 135), the JSON file after it (line 146).
\<close>

record run =
  failure :: "error option"
  written :: "(string \<times> artifact) list"

subsection \<open>The layout (lines 70-76)\<close>

definition Math_sqrt :: "real \<Rightarrow> real" where
  "Math_sqrt v = sqrt v"

definition Math_ceil :: "real \<Rightarrow> int" where
  "Math_ceil v = \<lceil>v\<rceil>"

text \<open>\<open>Math.max(a, ...as)\<close> with at least one argument; \<open>generateSpriteFromDirectory\<close> has
  left at line 35 when there is none.\<close>

definition Math_max :: "int \<Rightarrow> int list \<Rightarrow> int" where
  "Math_max a as = fold max as a"

definition layout :: "ImageMeta \<Rightarrow> ImageMeta list \<Rightarrow> options \<Rightarrow> Layout" where
  "layout img rest opts =
    (let imagesMetadata = img # rest;
         imageCount = length imagesMetadata;
         gridSize = nat (Math_ceil (Math_sqrt (real imageCount)));
         totalCells = gridSize * gridSize;
         maxCellWidth = Math_max (width img) (map width rest) + padding opts;
         maxCellHeight = Math_max (height img) (map height rest) + padding opts;
         spriteWidth = int gridSize * maxCellWidth;
         spriteHeight = int gridSize * maxCellHeight
     in \<lparr>imageCount = imageCount, gridSize = gridSize, totalCells = totalCells,
         maxCellWidth = maxCellWidth, maxCellHeight = maxCellHeight,
         spriteWidth = spriteWidth, spriteHeight = spriteHeight\<rparr>)"

subsection \<open>The placement loop (lines 110-128)\<close>

record loop_state =
  composites :: "composite list"
  positions :: "PlacementEntry object"

text \<open>
  One pass through the body, for index \<open>i\<close>. \<open>Math.floor(i / gridSize)\<close> and \<open>i % gridSize\<close>
  are \<open>div\<close> and \<open>mod\<close> on the naturals (the grid size is positive whenever the body runs
  in \<open>generateSpriteFromDirectory\<close>).
  Reading \<open>imagesMetadata[i]\<close> past the end gives \<open>undefined\<close>, and \<open>toBuffer\<close> may reject:
  both throw into the handler of line 161.
\<close>

definition placeStep :: "Layout \<Rightarrow> ImageMeta list \<Rightarrow> nat \<Rightarrow> loop_state \<Rightarrow> error + loop_state" where
  "placeStep L imagesMetadata i st =
    (let row = i div gridSize L;
         col = i mod gridSize L;
         x = int col * maxCellWidth L;
         y = int row * maxCellHeight L
     in if length imagesMetadata \<le> i then Inl CompositionError
        else let imgMeta = imagesMetadata ! i
             in case image imgMeta of
                  None \<Rightarrow> Inl CompositionError
                | Some buf \<Rightarrow>
                    Inr \<lparr>composites = composites st @ [\<lparr>c_input = buf, c_left = x, c_top = y\<rparr>],
                         positions = assign (filename imgMeta)
                           \<lparr>pos_x = x, pos_y = y, pos_width = width imgMeta, pos_height = height imgMeta\<rparr>
                           (positions st)\<rparr>)"

function placeLoop :: "Layout \<Rightarrow> ImageMeta list \<Rightarrow> nat \<Rightarrow> loop_state \<Rightarrow> error + loop_state" where
  "placeLoop L imagesMetadata i st =
    (if i < imageCount L
     then (case placeStep L imagesMetadata i st of
             Inl e \<Rightarrow> Inl e
           | Inr st' \<Rightarrow> placeLoop L imagesMetadata (i + 1) st')
     else Inr st)"
  by pat_completeness auto
termination
  by (relation "measure (\<lambda>(L, imagesMetadata, i, st). imageCount L - i)") auto

declare placeLoop.simps [simp del]

subsection \<open>The whole run (lines 33-147)\<close>

text \<open>
  What the calls into sharp and the file system do in a run, where the source has nothing
  to say about it: whether \<open>sharp({create: ...})\<close> (lines 101-108) throws, whether
  \<open>composite(composites).toFile\<close> (line 135) rejects, and whether \<open>writeFileSync\<close>
  (line 146) throws. Each of them ends in the handler of line 161.
\<close>

record outside =
  create_throws :: bool
  toFile_rejects :: bool
  writeFileSync_throws :: bool

definition generateSpriteFromDirectory :: "outside \<Rightarrow> ImageMeta list \<Rightarrow> options \<Rightarrow> run" where
  "generateSpriteFromDirectory env imagesMetadata opts =
    (case imagesMetadata of
       [] \<Rightarrow> \<lparr>failure = Some EmptyInputSet, written = []\<rparr>
     | img # rest \<Rightarrow>
        (let L = layout img rest opts
         in if spriteWidth L > maxSize opts \<or> spriteHeight L > maxSize opts
            then \<lparr>failure = Some SizeExceeded, written = []\<rparr>
            else if create_throws env
            then \<lparr>failure = Some CompositionError, written = []\<rparr>
            else (case placeLoop L imagesMetadata 0 \<lparr>composites = [], positions = []\<rparr> of
                    Inl e \<Rightarrow> \<lparr>failure = Some e, written = []\<rparr>
                  | Inr st \<Rightarrow>
                      if toFile_rejects env
                      then \<lparr>failure = Some CompositionError, written = []\<rparr>
                      else if writeFileSync_throws env
                      then \<lparr>failure = Some CompositionError,
                            written =
                              [(name opts @ ''.png'',
                                PngFile \<lparr>create_width = spriteWidth L, create_height = spriteHeight L,
                                         layers = composites st\<rparr>)]\<rparr>
                      else
                        \<lparr>failure = None,
                         written =
                           [(name opts @ ''.png'',
                             PngFile \<lparr>create_width = spriteWidth L, create_height = spriteHeight L,
                                      layers = composites st\<rparr>),
                            (name opts @ ''.json'',
                             JsonFile \<lparr>json_spriteWidth = spriteWidth L, json_spriteHeight = spriteHeight L,
                                       json_gridSize = gridSize L, json_imageCount = imageCount L,
                                       json_images = positions st\<rparr>)]\<rparr>)))"

subsection \<open>Reading a run\<close>

text \<open>The JSON document and the sprite among the files of a run, if they were written.\<close>

fun json_document_of :: "(string \<times> artifact) list \<Rightarrow> jsonData option" where
  "json_document_of [] = None"
| "json_document_of ((p, JsonFile d) # fs) = Some d"
| "json_document_of ((p, PngFile s) # fs) = json_document_of fs"

fun png_sprite_of :: "(string \<times> artifact) list \<Rightarrow> sprite option" where
  "png_sprite_of [] = None"
| "png_sprite_of ((p, PngFile s) # fs) = Some s"
| "png_sprite_of ((p, JsonFile d) # fs) = png_sprite_of fs"

definition json_document :: "run \<Rightarrow> jsonData option" where
  "json_document r = json_document_of (written r)"

definition png_sprite :: "run \<Rightarrow> sprite option" where
  "png_sprite r = png_sprite_of (written r)"

text \<open>\<open>toBuffer\<close> of the image at index \<open>j\<close> resolves.\<close>

definition readable :: "ImageMeta list \<Rightarrow> nat \<Rightarrow> bool" where
  "readable recs j \<longleftrightarrow> j < length recs \<and> image (recs ! j) \<noteq> None"

text \<open>What the body of the loop pushes and stores for index \<open>j\<close>.\<close>

definition layer_at :: "Layout \<Rightarrow> ImageMeta list \<Rightarrow> nat \<Rightarrow> composite" where
  "layer_at L recs j =
     \<lparr>c_input = the (image (recs ! j)),
      c_left = int (j mod gridSize L) * maxCellWidth L,
      c_top = int (j div gridSize L) * maxCellHeight L\<rparr>"

definition entry_at :: "Layout \<Rightarrow> ImageMeta list \<Rightarrow> nat \<Rightarrow> PlacementEntry" where
  "entry_at L recs j =
     \<lparr>pos_x = int (j mod gridSize L) * maxCellWidth L,
      pos_y = int (j div gridSize L) * maxCellHeight L,
      pos_width = width (recs ! j), pos_height = height (recs ! j)\<rparr>"

text \<open>The number of filename collisions: the records whose file name an earlier record
  already has.\<close>

definition collisions :: "ImageMeta list \<Rightarrow> nat" where
  "collisions recs = length recs - length (remdups (map filename recs))"

text \<open>The least \<open>g \<ge> k\<close> with \<open>n \<le> g * g\<close>, by search: the integer reading of
  \<open>Math.ceil(Math.sqrt(n))\<close>, used to evaluate the layout.\<close>

function ceil_sqrt_from :: "nat \<Rightarrow> nat \<Rightarrow> nat" where
  "ceil_sqrt_from k n = (if n \<le> k * k then k else ceil_sqrt_from (k + 1) n)"
  by pat_completeness auto
termination
proof (relation "measure (\<lambda>(k, n). n - k)")
  show "wf (measure (\<lambda>(k, n). n - k))" by simp
next
  fix k n :: nat
  assume "\<not> n \<le> k * k"
  moreover have "k \<le> k * k" by (cases k) simp_all
  ultimately have "k < n" by linarith
  then show "((k + 1, n), (k, n)) \<in> measure (\<lambda>(k, n). n - k)" by simp
qed

declare ceil_sqrt_from.simps [simp del]

subsection \<open>Doubles\<close>

text \<open>Every integer of absolute value at most \<open>2 ^ 53\<close> is a double.\<close>

definition safe_integer :: "int \<Rightarrow> bool" where
  "safe_integer v \<longleftrightarrow> \<bar>v\<bar> \<le> 2 ^ 53"

text \<open>
  The double nearest to an integer: 53 significant bits, a tie going to the even one. (The
  overflow to \<open>Infinity\<close>, near \<open>2 ^ 1024\<close>, is left out.) \<open>excess_bits a\<close> is the number of
  low bits of \<open>a\<close> that a double cannot keep.
\<close>

function excess_bits :: "nat \<Rightarrow> nat" where
  "excess_bits a = (if a < 2 ^ 53 then 0 else Suc (excess_bits (a div 2)))"
  by pat_completeness auto
termination
  by (relation "measure (\<lambda>a. a)") auto

declare excess_bits.simps [simp del]

definition nearest_double :: "int \<Rightarrow> int" where
  "nearest_double v =
    (let a = nat \<bar>v\<bar>;
         e = excess_bits a;
         q = a div 2 ^ e;
         r = a mod 2 ^ e
     in if e = 0 then v
        else if 2 ^ e < 2 * r \<or> (2 * r = 2 ^ e \<and> odd q)
        then sgn v * int ((q + 1) * 2 ^ e)
        else sgn v * int (q * 2 ^ e))"

text \<open>\<open>a + b\<close> and \<open>a * b\<close> of JavaScript, on doubles that are integers.\<close>

definition js_add :: "int \<Rightarrow> int \<Rightarrow> int" where
  "js_add a b = nearest_double (a + b)"

definition js_mul :: "int \<Rightarrow> int \<Rightarrow> int" where
  "js_mul a b = nearest_double (a * b)"

text \<open>Lines 70-76 once more, with the sums and products of doubles.\<close>

definition layout_doubles :: "ImageMeta \<Rightarrow> ImageMeta list \<Rightarrow> options \<Rightarrow> Layout" where
  "layout_doubles img rest opts =
    (let imagesMetadata = img # rest;
         imageCount = length imagesMetadata;
         gridSize = nat (Math_ceil (Math_sqrt (real imageCount)));
         totalCells = gridSize * gridSize;
         maxCellWidth = js_add (Math_max (width img) (map width rest)) (padding opts);
         maxCellHeight = js_add (Math_max (height img) (map height rest)) (padding opts);
         spriteWidth = js_mul (int gridSize) maxCellWidth;
         spriteHeight = js_mul (int gridSize) maxCellHeight
     in \<lparr>imageCount = imageCount, gridSize = gridSize, totalCells = totalCells,
         maxCellWidth = maxCellWidth, maxCellHeight = maxCellHeight,
         spriteWidth = spriteWidth, spriteHeight = spriteHeight\<rparr>)"

text \<open>
  The inputs and the results of lines 73-76 are integers that doubles hold exactly. Then
  so are the products of lines 116-117, which lie between 0 and the sheet size.
\<close>

definition within_doubles :: "ImageMeta \<Rightarrow> ImageMeta list \<Rightarrow> options \<Rightarrow> bool" where
  "within_doubles img rest opts \<longleftrightarrow>
     list_all (\<lambda>m. safe_integer (width m) \<and> safe_integer (height m)) (img # rest) \<and>
     safe_integer (padding opts) \<and> safe_integer (maxSize opts) \<and>
     safe_integer (maxCellWidth (layout img rest opts)) \<and>
     safe_integer (maxCellHeight (layout img rest opts)) \<and>
     safe_integer (spriteWidth (layout img rest opts)) \<and>
     safe_integer (spriteHeight (layout img rest opts))"

subsection \<open>What the canvas can hold\<close>


subsection \<open>Inputs for the examples\<close>

text \<open>A run in which no call into sharp or the file system fails, the defaults of the
  command line (lines 173-175), and an image file of a given name and size whose bytes can
  be read.\<close>

definition all_calls_succeed :: outside where
  "all_calls_succeed = \<lparr>create_throws = False, toFile_rejects = False, writeFileSync_throws = False\<rparr>"

definition default_options :: options where
  "default_options = \<lparr>name = ''sprite'', padding = 0, maxSize = 4096\<rparr>"

definition picture :: "string \<Rightarrow> int \<Rightarrow> int \<Rightarrow> ImageMeta" where
  "picture f w h = \<lparr>filename = f, width = w, height = h, image = Some [0, 0, 0, 0]\<rparr>"

text \<open>Four images of at most 50 by 50, packed with a padding of 10.\<close>

definition four_first :: ImageMeta where
  "four_first = picture ''a.png'' 50 50"

definition four_rest :: "ImageMeta list" where
  "four_rest = [picture ''b.png'' 40 30, picture ''c.png'' 20 50, picture ''d.png'' 50 10]"

definition padded_options :: options where
  "padded_options = default_options\<lparr>padding := 10\<rparr>"

definition four_sprite :: sprite where
  "four_sprite =
     \<lparr>create_width = 120, create_height = 120,
      layers = [\<lparr>c_input = [0, 0, 0, 0], c_left = 0, c_top = 0\<rparr>,
                \<lparr>c_input = [0, 0, 0, 0], c_left = 60, c_top = 0\<rparr>,
                \<lparr>c_input = [0, 0, 0, 0], c_left = 0, c_top = 60\<rparr>,
                \<lparr>c_input = [0, 0, 0, 0], c_left = 60, c_top = 60\<rparr>]\<rparr>"

definition four_document :: jsonData where
  "four_document =
     \<lparr>json_spriteWidth = 120, json_spriteHeight = 120, json_gridSize = 2, json_imageCount = 4,
      json_images = [(''a.png'', \<lparr>pos_x = 0, pos_y = 0, pos_width = 50, pos_height = 50\<rparr>),
                     (''b.png'', \<lparr>pos_x = 60, pos_y = 0, pos_width = 40, pos_height = 30\<rparr>),
                     (''c.png'', \<lparr>pos_x = 0, pos_y = 60, pos_width = 20, pos_height = 50\<rparr>),
                     (''d.png'', \<lparr>pos_x = 60, pos_y = 60, pos_width = 50, pos_height = 10\<rparr>)]\<rparr>"

text \<open>Two records with one file name (which no directory listing gives, but line 126 has
  an answer for), and the document of the run on them.\<close>

definition twins :: "ImageMeta list" where
  "twins = [picture ''a.png'' 10 10, picture ''a.png'' 20 20]"

definition twins_document :: jsonData where
  "twins_document =
     \<lparr>json_spriteWidth = 40, json_spriteHeight = 40, json_gridSize = 2, json_imageCount = 2,
      json_images = [(''a.png'', \<lparr>pos_x = 20, pos_y = 0, pos_width = 20, pos_height = 20\<rparr>)]\<rparr>"





section \<open>Auxiliary facts\<close>

subsection \<open>The grid size as an integer\<close>


lemma ceil_sqrt_from_spec:
  "k = 0 \<or> (k - 1) * (k - 1) < n \<Longrightarrow>
   n \<le> ceil_sqrt_from k n * ceil_sqrt_from k n \<and>
   (ceil_sqrt_from k n = 0 \<or> (ceil_sqrt_from k n - 1) * (ceil_sqrt_from k n - 1) < n)"
proof (induction k n rule: ceil_sqrt_from.induct)
  case (1 k n)
  show ?case
  proof (cases "n \<le> k * k")
    case True
    then show ?thesis using "1.prems" by (simp add: ceil_sqrt_from.simps[of k n])
  next
    case False
    then have "k + 1 = 0 \<or> (k + 1 - 1) * (k + 1 - 1) < n" by simp
    from "1.IH"[OF False this] show ?thesis
      using False by (simp add: ceil_sqrt_from.simps[of k n])
  qed
qed

lemma ceil_sqrt_unique:
  fixes n k :: nat
  assumes "0 < k" "(k - 1) * (k - 1) < n" "n \<le> k * k"
  shows "nat \<lceil>sqrt (real n)\<rceil> = k"
proof -
  have "real n \<le> (real k)\<^sup>2"
    using assms(3) by (metis of_nat_le_iff of_nat_mult power2_eq_square)
  then have up: "sqrt (real n) \<le> real k"
    by (intro real_le_lsqrt) simp_all
  have "real ((k - 1) * (k - 1)) < real n" using assms(2) by (simp only: of_nat_less_iff)
  then have "(real k - 1)\<^sup>2 < real n"
    using assms(1) by (simp add: of_nat_diff power2_eq_square)
  then have lo: "real k - 1 < sqrt (real n)"
    by (rule real_less_rsqrt)
  have "\<lceil>sqrt (real n)\<rceil> = int k"
    by (rule ceiling_unique) (use lo up in simp_all)
  then show ?thesis by simp
qed

lemma Math_ceil_sqrt_code: "nat (Math_ceil (Math_sqrt (real n))) = ceil_sqrt_from 0 n"
proof (cases "ceil_sqrt_from 0 n = 0")
  case True
  then have "n = 0" using ceil_sqrt_from_spec[of 0 n] by simp
  then show ?thesis using True by (simp add: Math_ceil_def Math_sqrt_def)
next
  case False
  then show ?thesis
    using ceil_sqrt_from_spec[of 0 n] ceil_sqrt_unique[of "ceil_sqrt_from 0 n" n]
    by (simp add: Math_ceil_def Math_sqrt_def)
qed

lemma layout_code [code]:
  "layout img rest opts =
    (let g = ceil_sqrt_from 0 (Suc (length rest));
         w = Math_max (width img) (map width rest) + padding opts;
         h = Math_max (height img) (map height rest) + padding opts
     in \<lparr>imageCount = Suc (length rest), gridSize = g, totalCells = g * g,
         maxCellWidth = w, maxCellHeight = h,
         spriteWidth = int g * w, spriteHeight = int g * h\<rparr>)"
  unfolding layout_def Let_def Math_ceil_sqrt_code by simp

subsection \<open>The rounding of doubles\<close>

text \<open>
  \<open>Math.sqrt\<close> and the division of line 114 round their result to a double. Let \<open>rnd\<close>
  be that rounding: it is monotone, leaves the integers up to \<open>2 ^ 53\<close> as they are, and
  is off by a factor of at most \<open>1 \<plusminus> 2 ^ -53\<close> on the values met here (between \<open>2 ^ -53\<close>
  and \<open>2 ^ 53\<close>, where doubles are normal). Then, for fewer than \<open>2 ^ 52\<close> images,
  the ceiling of the rounded root is the ceiling of the root, and the floor of the rounded
  quotient is the integer quotient: the layout and the loop compute what the model
  computes on real and natural numbers.
\<close>

lemma ceil_sqrt_rounded:
  fixes rnd :: "real \<Rightarrow> real" and n :: nat
  assumes mono: "\<And>x y. x \<le> y \<Longrightarrow> rnd x \<le> rnd y"
    and ints: "\<And>k::nat. k \<le> 2 ^ 53 \<Longrightarrow> rnd (real k) = real k"
    and err: "\<And>x. 1 \<le> x \<Longrightarrow> x \<le> 2 ^ 26 \<Longrightarrow> x * (1 - 1 / 2 ^ 53) \<le> rnd x"
    and n: "n < 2 ^ 52"
  shows "Math_ceil (rnd (Math_sqrt (real n))) = Math_ceil (Math_sqrt (real n))"
proof (cases "n = 0")
  case True
  then show ?thesis using ints[of 0] by (simp add: Math_ceil_def Math_sqrt_def)
next
  case False
  define x where "x = sqrt (real n)"
  define g where "g = nat \<lceil>x\<rceil>"
  have xpos: "0 < x" using False by (simp add: x_def)
  then have cpos: "0 < \<lceil>x\<rceil>" by (simp only: zero_less_ceiling)
  then have gi: "real g = of_int \<lceil>x\<rceil>" by (simp add: g_def)
  have g1: "1 \<le> g" using cpos unfolding g_def by linarith
  have up: "x \<le> real g" unfolding gi by (rule le_of_int_ceiling)
  have lo: "real g - 1 < x" unfolding gi using ceiling_correct[of x] by simp
  define m where "m = g - 1"
  have m: "real m = real g - 1" using g1 by (simp add: m_def of_nat_diff)
  have "(real m)\<^sup>2 < x\<^sup>2"
    using lo unfolding m[symmetric] by (intro power_strict_mono) simp_all
  then have "real (m * m) < real n"
    using xpos by (simp add: x_def power2_eq_square)
  then have "m * m < n" by (simp only: of_nat_less_iff)
  then have mn: "m * m + 1 \<le> n" by simp
  then have "m * m + 1 < 2 ^ 52" using n by (rule le_less_trans)
  then have "real (m * m + 1) < real (2 ^ 52)" by (simp only: of_nat_less_iff)
  then have m52: "real (m * m) + 1 < 2 ^ 52" by (simp only: of_nat_add of_nat_1 of_nat_power of_nat_numeral)
  define e :: real where "e = 1 / 2 ^ 53"
  have e: "0 < e" "e < 1" and e52: "2 * e * 2 ^ 52 = 1" by (simp_all add: e_def)
  have "m \<le> m * m" by (cases m) simp_all
  then have "g \<le> n" using \<open>m * m < n\<close> unfolding m_def by linarith
  then have "g < 2 ^ 52" using n by (rule le_less_trans)
  moreover have "(2::nat) ^ 52 \<le> 2 ^ 53" by (rule power_increasing) simp_all
  ultimately have g53: "g \<le> 2 ^ 53" by linarith
  have "rnd x \<le> rnd (real g)" using up by (rule mono)
  then have hi: "rnd x \<le> real g" by (simp only: ints[OF g53])
  have x2: "x\<^sup>2 = real n" by (simp add: x_def)
  have sq: "(real m)\<^sup>2 < (x * (1 - e))\<^sup>2"
  proof -
    have "2 * e * (real (m * m) + 1) < 2 * e * 2 ^ 52"
      using m52 e(1) by (intro mult_strict_left_mono) simp_all
    then have "2 * e * (real (m * m) + 1) < 1" unfolding e52 .
    then have "real (m * m) < (real (m * m) + 1) * (1 - 2 * e)"
      by (simp add: algebra_simps)
    also have "\<dots> \<le> (real (m * m) + 1) * (1 - e)\<^sup>2"
    proof (intro mult_left_mono)
      have "(1 - e)\<^sup>2 = 1 - 2 * e + e * e" by (simp add: power2_eq_square algebra_simps)
      then show "1 - 2 * e \<le> (1 - e)\<^sup>2" using e(1) by simp
    qed simp
    also have "\<dots> \<le> real n * (1 - e)\<^sup>2"
    proof (intro mult_right_mono)
      have "real (m * m + 1) \<le> real n" using mn by (simp only: of_nat_le_iff)
      then show "real (m * m) + 1 \<le> real n" by simp
    qed simp
    also have "\<dots> = (x * (1 - e))\<^sup>2"
      unfolding power_mult_distrib x2 ..
    finally show ?thesis by (simp add: power2_eq_square)
  qed
  have "real m < x * (1 - e)"
  proof (rule power2_less_imp_less[OF sq])
    show "0 \<le> x * (1 - e)" using xpos e(2) by simp
  qed
  also have "\<dots> \<le> rnd x"
  proof -
    have "1 \<le> real n" using False by simp
    then have x1: "1 \<le> x" unfolding x_def by (rule real_sqrt_ge_one)
    have "real n < real (2 ^ 52)" using n by (simp only: of_nat_less_iff)
    then have "real n \<le> (2 ^ 26)\<^sup>2" by simp
    then have x26: "x \<le> 2 ^ 26" unfolding x_def by (intro real_le_lsqrt) simp_all
    show ?thesis using err[OF x1 x26] unfolding e_def .
  qed
  finally have low: "real g - 1 < rnd x" unfolding m .
  have "\<lceil>rnd x\<rceil> = \<lceil>x\<rceil>"
  proof (rule ceiling_unique)
    show "of_int \<lceil>x\<rceil> - 1 < rnd x" using low unfolding gi .
    show "rnd x \<le> of_int \<lceil>x\<rceil>" using hi unfolding gi .
  qed
  then show ?thesis by (simp add: Math_ceil_def Math_sqrt_def x_def)
qed

lemma floor_div_rounded:
  fixes rnd :: "real \<Rightarrow> real" and i g :: nat
  assumes mono: "\<And>x y. x \<le> y \<Longrightarrow> rnd x \<le> rnd y"
    and ints: "\<And>k::nat. k \<le> 2 ^ 53 \<Longrightarrow> rnd (real k) = real k"
    and err: "\<And>x. 1 / 2 ^ 53 \<le> x \<Longrightarrow> x \<le> 2 ^ 53 \<Longrightarrow> rnd x \<le> x * (1 + 1 / 2 ^ 53)"
    and g: "0 < g" and g53: "g \<le> 2 ^ 53" and i: "i < 2 ^ 53"
  shows "\<lfloor>rnd (real i / real g)\<rfloor> = int (i div g)"
proof -
  define x where "x = real i / real g"
  let ?q = "i div g" and ?r = "i mod g"
  define e :: real where "e = 1 / 2 ^ 53"
  have e53: "e * 2 ^ 53 = 1" and e0: "0 < e" by (simp_all add: e_def)
  have gp: "0 < real g" using g by simp
  have dm: "real i = real ?q * real g + real ?r"
    by (metis div_mult_mod_eq of_nat_add of_nat_mult)
  have xq: "x = real ?q + real ?r / real g"
    unfolding x_def dm using gp by (simp add: field_simps)
  have x0: "0 \<le> x" by (simp add: x_def)
  have "real ?q \<le> x" unfolding xq by simp
  then have "rnd (real ?q) \<le> rnd x" by (rule mono)
  moreover have "?q \<le> i" by (rule div_le_dividend)
  then have "?q \<le> 2 ^ 53" using i by linarith
  ultimately have lo: "real ?q \<le> rnd x" by (simp only: ints)
  have "?r + 1 \<le> g" using g by (simp add: Suc_leI)
  then have "real ?r + 1 \<le> real g" by (metis of_nat_1 of_nat_add of_nat_le_iff)
  then have r: "real ?r / real g \<le> 1 - 1 / real g"
    using gp by (simp add: field_simps)
  have "real i < real (2 ^ 53)" using i by (simp only: of_nat_less_iff)
  then have "real i < 2 ^ 53" by (simp only: of_nat_power of_nat_numeral)
  then have "e * real i < e * 2 ^ 53" using e0 by (intro mult_strict_left_mono)
  then have "real i * e < 1" unfolding e53 by (simp add: mult.commute)
  then have "real i * e / real g < 1 / real g"
    using gp by (intro divide_strict_right_mono)
  then have "x * e < 1 / real g"
    unfolding x_def by simp
  then have "x * (1 + e) < x + 1 / real g" by (simp add: algebra_simps)
  also have "\<dots> \<le> real ?q + 1" unfolding xq using r by simp
  finally have bound: "x * (1 + e) < real ?q + 1" .
  have hi: "rnd x < real ?q + 1"
  proof (cases "i = 0")
    case True
    then have "rnd x = 0" using ints[of 0] by (simp add: x_def)
    then show ?thesis by simp
  next
    case False
    then have "1 \<le> real i" by simp
    then have "1 / real g \<le> x" unfolding x_def using gp by (intro divide_right_mono) simp_all
    moreover have "real g \<le> real (2 ^ 53)" using g53 by (simp only: of_nat_le_iff)
    then have "real g \<le> 2 ^ 53" by (simp only: of_nat_power of_nat_numeral)
    then have "1 / 2 ^ 53 \<le> 1 / real g" using gp by (intro divide_left_mono) simp_all
    ultimately have lo53: "1 / 2 ^ 53 \<le> x" by (rule order_trans[rotated])
    have "1 \<le> real g" using g by simp
    then have "real i / real g \<le> real i / 1" by (intro divide_left_mono) simp_all
    then have "x \<le> real i" unfolding x_def by simp
    then have hi53: "x \<le> 2 ^ 53" using \<open>real i < 2 ^ 53\<close> by linarith
    have "rnd x \<le> x * (1 + e)" using err[OF lo53 hi53] unfolding e_def .
    with bound show ?thesis by linarith
  qed
  have "\<lfloor>rnd x\<rfloor> = int ?q"
    by (rule floor_unique) (use lo hi in simp_all)
  then show ?thesis by (simp add: x_def)
qed

subsection \<open>Maximum, object assignment, and the loop in closed form\<close>


lemma Math_max_eq_Max: "Math_max a as = Max (set (a # as))"
  using Max.set_eq_fold[of a as] by (simp add: Math_max_def)

lemma lookup_assign: "lookup (assign k v ps) k' = (if k' = k then Some v else lookup ps k')"
  by (induction ps) (auto simp: lookup_def)

lemma keys_assign: "keys (assign k v ps) = (if k \<in> set (keys ps) then keys ps else keys ps @ [k])"
  by (induction ps) (force simp: keys_def)+

lemma distinct_keys_assign: "distinct (keys ps) \<Longrightarrow> distinct (keys (assign k v ps))"
  by (simp add: keys_assign)

lemma placeStep_eq:
  "placeStep L recs i st =
     (if readable recs i
      then Inr \<lparr>composites = composites st @ [layer_at L recs i],
                positions = assign (filename (recs ! i)) (entry_at L recs i) (positions st)\<rparr>
      else Inl CompositionError)"
  by (auto simp: placeStep_def readable_def entry_at_def layer_at_def Let_def split: option.splits)

lemma placeLoop_eq:
  "placeLoop L recs i st =
     (if \<forall>j\<in>{i..<imageCount L}. readable recs j
      then Inr \<lparr>composites = composites st @ map (layer_at L recs) [i..<imageCount L],
                positions = fold (\<lambda>j. assign (filename (recs ! j)) (entry_at L recs j))
                              [i..<imageCount L] (positions st)\<rparr>
      else Inl CompositionError)"
proof (induction L recs i st rule: placeLoop.induct)
  case (1 L recs i st)
  show ?case
  proof (cases "i < imageCount L")
    case False
    then show ?thesis by (simp add: placeLoop.simps[of L recs i st])
  next
    case True
    then have split: "{i..<imageCount L} = insert i {i + 1..<imageCount L}" by auto
    have upt: "[i..<imageCount L] = i # [i + 1..<imageCount L]"
      using True by (simp add: upt_conv_Cons)
    show ?thesis
    proof (cases "readable recs i")
      case False
      then show ?thesis using True
        by (simp add: placeLoop.simps[of L recs i st] placeStep_eq split)
    next
      case r: True
      show ?thesis
        using True r "1.IH"[OF True, of "\<lparr>composites = composites st @ [layer_at L recs i],
                positions = assign (filename (recs ! i)) (entry_at L recs i) (positions st)\<rparr>"]
        by (simp add: placeLoop.simps[of L recs i st] placeStep_eq split upt)
    qed
  qed
qed


subsection \<open>The object built by the loop, and the run in closed form\<close>

lemma lookup_fold_assign_other:
  "\<forall>j\<in>set js. f j \<noteq> k \<Longrightarrow> lookup (fold (\<lambda>j. assign (f j) (e j)) js ps) k = lookup ps k"
  by (induction js arbitrary: ps) (auto simp: lookup_assign)

lemma lookup_fold_assign_last:
  "\<forall>j\<in>set js'. f j \<noteq> f i \<Longrightarrow>
   lookup (fold (\<lambda>j. assign (f j) (e j)) (js @ i # js') ps) (f i) = Some (e i)"
  by (simp add: lookup_fold_assign_other lookup_assign)

lemma lookup_fold_assign_cases:
  "lookup (fold (\<lambda>j. assign (f j) (e j)) js ps) k = Some v \<Longrightarrow>
   lookup ps k = Some v \<or> (\<exists>j\<in>set js. f j = k \<and> v = e j)"
proof (induction js arbitrary: ps)
  case Nil
  then show ?case by simp
next
  case (Cons j js)
  from Cons.IH[of "assign (f j) (e j) ps"] Cons.prems
  show ?case by (auto simp: lookup_assign split: if_splits)
qed

lemma keys_fold_assign:
  "set (keys (fold (\<lambda>j. assign (f j) (e j)) js ps)) = set (keys ps) \<union> f ` set js"
  by (induction js arbitrary: ps) (auto simp: keys_assign)

lemma distinct_keys_fold_assign:
  "distinct (keys ps) \<Longrightarrow> distinct (keys (fold (\<lambda>j. assign (f j) (e j)) js ps))"
  by (induction js arbitrary: ps) (simp_all add: distinct_keys_assign)

lemma imageCount_layout: "imageCount (layout img rest opts) = Suc (length rest)"
  by (simp add: layout_def Let_def)

lemma generate_Cons:
  "generateSpriteFromDirectory env (img # rest) opts =
    (let L = layout img rest opts
     in if spriteWidth L > maxSize opts \<or> spriteHeight L > maxSize opts
        then \<lparr>failure = Some SizeExceeded, written = []\<rparr>
        else if create_throws env \<or> \<not> (\<forall>j<Suc (length rest). readable (img # rest) j) \<or>
                toFile_rejects env
        then \<lparr>failure = Some CompositionError, written = []\<rparr>
        else if writeFileSync_throws env
        then \<lparr>failure = Some CompositionError,
              written =
                [(name opts @ ''.png'',
                  PngFile \<lparr>create_width = spriteWidth L, create_height = spriteHeight L,
                           layers = map (layer_at L (img # rest)) [0..<Suc (length rest)]\<rparr>)]\<rparr>
        else \<lparr>failure = None,
              written =
                [(name opts @ ''.png'',
                  PngFile \<lparr>create_width = spriteWidth L, create_height = spriteHeight L,
                           layers = map (layer_at L (img # rest)) [0..<Suc (length rest)]\<rparr>),
                 (name opts @ ''.json'',
                  JsonFile \<lparr>json_spriteWidth = spriteWidth L, json_spriteHeight = spriteHeight L,
                            json_gridSize = gridSize L, json_imageCount = Suc (length rest),
                            json_images =
                              fold (\<lambda>j. assign (filename ((img # rest) ! j)) (entry_at L (img # rest) j))
                                [0..<Suc (length rest)] []\<rparr>)]\<rparr>)"
proof -
  have all: "(\<forall>j\<in>{0..<Suc (length rest)}. readable (img # rest) j) = (\<forall>j<Suc (length rest). readable (img # rest) j)"
    by auto
  show ?thesis
    unfolding generateSpriteFromDirectory_def list.case Let_def placeLoop_eq imageCount_layout all
    by (simp del: upt_Suc)
qed

lemma gridSize_layout: "gridSize (layout img rest opts) = nat \<lceil>sqrt (real (Suc (length rest)))\<rceil>"
  by (simp add: layout_def Let_def Math_ceil_def Math_sqrt_def)

lemma gridSize_table:
  "0 < k \<Longrightarrow> (k - 1) * (k - 1) < Suc (length rest) \<Longrightarrow> Suc (length rest) \<le> k * k \<Longrightarrow>
   gridSize (layout img rest opts) = k"
  by (simp only: gridSize_layout ceil_sqrt_unique)

lemma gridSize_layout_bounds:
  "0 < gridSize (layout img rest opts)"
  "(gridSize (layout img rest opts) - 1) * (gridSize (layout img rest opts) - 1) < Suc (length rest)"
  "Suc (length rest) \<le> gridSize (layout img rest opts) * gridSize (layout img rest opts)"
proof -
  let ?n = "Suc (length rest)"
  have g: "gridSize (layout img rest opts) = ceil_sqrt_from 0 ?n"
    by (simp add: layout_code Let_def)
  have spec: "?n \<le> ceil_sqrt_from 0 ?n * ceil_sqrt_from 0 ?n \<and>
    (ceil_sqrt_from 0 ?n = 0 \<or> (ceil_sqrt_from 0 ?n - 1) * (ceil_sqrt_from 0 ?n - 1) < ?n)"
    by (rule ceil_sqrt_from_spec) simp
  from spec show "Suc (length rest) \<le> gridSize (layout img rest opts) * gridSize (layout img rest opts)"
    unfolding g by simp
  from spec have nz: "ceil_sqrt_from 0 ?n \<noteq> 0" by (cases "ceil_sqrt_from 0 ?n = 0") simp_all
  then show "0 < gridSize (layout img rest opts)" unfolding g by simp
  from spec nz show "(gridSize (layout img rest opts) - 1) * (gridSize (layout img rest opts) - 1) < Suc (length rest)"
    unfolding g by simp
qed

lemma json_document_generate:
  "json_document (generateSpriteFromDirectory env (img # rest) opts) = Some d \<Longrightarrow>
   json_gridSize d = gridSize (layout img rest opts) \<and>
   json_imageCount d = Suc (length rest) \<and>
   json_spriteWidth d = spriteWidth (layout img rest opts) \<and>
   json_spriteHeight d = spriteHeight (layout img rest opts) \<and>
   json_images d = fold (\<lambda>j. assign (filename ((img # rest) ! j)) (entry_at (layout img rest opts) (img # rest) j))
                                [0..<Suc (length rest)] []"
  by (auto simp: generate_Cons json_document_def Let_def simp del: upt_Suc split: if_splits)

lemma gridSize_layout_int:
  "int (gridSize (layout img rest opts)) = \<lceil>sqrt (real (Suc (length rest)))\<rceil>"
proof -
  have "0 < sqrt (real (Suc (length rest)))"
    by (simp only: real_sqrt_gt_0_iff of_nat_0_less_iff zero_less_Suc)
  then have "0 < \<lceil>sqrt (real (Suc (length rest)))\<rceil>" by (simp only: zero_less_ceiling)
  then show ?thesis
    unfolding gridSize_layout using nat_0_le[of "\<lceil>sqrt (real (Suc (length rest)))\<rceil>"] by linarith
qed

lemma maxCell_layout:
  "maxCellWidth (layout img rest opts) = Max (width ` set (img # rest)) + padding opts"
  "maxCellHeight (layout img rest opts) = Max (height ` set (img # rest)) + padding opts"
  by (simp_all add: layout_def Let_def Math_max_eq_Max)

lemma sprite_layout:
  "spriteWidth (layout img rest opts) = int (gridSize (layout img rest opts)) * maxCellWidth (layout img rest opts)"
  "spriteHeight (layout img rest opts) = int (gridSize (layout img rest opts)) * maxCellHeight (layout img rest opts)"
  by (simp_all add: layout_def Let_def)

lemma png_sprite_generate:
  "png_sprite (generateSpriteFromDirectory env (img # rest) opts) = Some s \<Longrightarrow>
   create_width s = spriteWidth (layout img rest opts) \<and>
   create_height s = spriteHeight (layout img rest opts) \<and>
   layers s = map (layer_at (layout img rest opts) (img # rest)) [0..<Suc (length rest)] \<and>
   (\<forall>j<Suc (length rest). readable (img # rest) j)"
  by (auto simp: generate_Cons png_sprite_def Let_def simp del: upt_Suc split: if_splits)

lemmas run_eval =
  generate_Cons all_calls_succeed_def layout_code Let_def ceil_sqrt_from.simps Math_max_def readable_def
  picture_def default_options_def json_document_def png_sprite_def entry_at_def layer_at_def
  less_Suc_eq

lemma cell_inj: "inj_on (\<lambda>i::nat. (i div g, i mod g)) A"
proof (rule inj_onI)
  fix i j :: nat
  assume "(i div g, i mod g) = (j div g, j mod g)"
  then have "i div g = j div g" "i mod g = j mod g" by simp_all
  then have "i div g * g + i mod g = j div g * g + j mod g" by simp
  then show "i = j" by (simp only: div_mult_mod_eq)
qed

lemma upt_split_at:
  "i < n \<Longrightarrow> [0..<n] = [0..<i] @ i # [Suc i..<n]"
  by (metis le_add1 le_add_same_cancel1 less_imp_add_positive upt_add_eq_append upt_conv_Cons)

lemma lookup_images_last:
  assumes "i < n" and "\<forall>j. i < j \<and> j < n \<longrightarrow> f j \<noteq> f i"
  shows "lookup (fold (\<lambda>j. assign (f j) (e j)) [0..<n] ps) (f i) = Some (e i)"
proof -
  have "\<forall>j\<in>set [Suc i..<n]. f j \<noteq> f i" using assms(2) by simp
  then show ?thesis
    unfolding upt_split_at[OF assms(1)] by (rule lookup_fold_assign_last)
qed

lemma four_run:
  "generateSpriteFromDirectory all_calls_succeed (four_first # four_rest) padded_options =
     \<lparr>failure = None,
      written = [(''sprite.png'', PngFile four_sprite), (''sprite.json'', JsonFile four_document)]\<rparr>"
  by code_simp

lemma readable_all:
  "(\<forall>j<length recs. readable recs j) \<longleftrightarrow> (\<forall>m\<in>set recs. image m \<noteq> None)"
  by (auto simp: readable_def all_set_conv_all_nth)

lemma lookup_images_source:
  assumes "lookup (fold (\<lambda>j. assign (f j) (e j)) [0..<n] []) k = Some v"
  shows "\<exists>j<n. f j = k \<and> v = e j"
  using lookup_fold_assign_cases[OF assms] by (auto simp: lookup_def)

lemma keys_images:
  "set (keys (fold (\<lambda>j. assign (filename (recs ! j)) (e j)) [0..<length recs] [])) = filename ` set recs"
proof -
  have "map (\<lambda>j. filename (recs ! j)) [0..<length recs] = map filename (map ((!) recs) [0..<length recs])"
    by simp
  also have "\<dots> = map filename recs"
    by (simp only: map_nth)
  finally have "set (map (\<lambda>j. filename (recs ! j)) [0..<length recs]) = set (map filename recs)"
    by (rule arg_cong)
  then have "(\<lambda>j. filename (recs ! j)) ` set [0..<length recs] = filename ` set recs"
    by (simp only: set_map)
  then show ?thesis
    unfolding keys_fold_assign[where f = "\<lambda>j. filename (recs ! j)"] by (simp add: keys_def)
qed

lemma length_images:
  "length (fold (\<lambda>j. assign (filename (recs ! j)) (e j)) [0..<length recs] []) =
     card (filename ` set recs)"
proof -
  let ?ps = "fold (\<lambda>j. assign (filename (recs ! j)) (e j)) [0..<length recs] []"
  have "distinct (keys ?ps)"
    by (rule distinct_keys_fold_assign[where f = "\<lambda>j. filename (recs ! j)"]) (simp add: keys_def)
  then have "card (set (keys ?ps)) = length (keys ?ps)" by (rule distinct_card)
  then show ?thesis unfolding keys_images by (simp add: keys_def)
qed

lemma card_filenames:
  "card (filename ` set recs) \<le> length recs"
  "card (filename ` set recs) = length recs \<longleftrightarrow> distinct (map filename recs)"
  "collisions recs = length recs - card (filename ` set recs)"
proof -
  have c: "card (filename ` set recs) = card (set (map filename recs))" by simp
  show "card (filename ` set recs) \<le> length recs"
    unfolding c using card_length[of "map filename recs"] by simp
  show "card (filename ` set recs) = length recs \<longleftrightarrow> distinct (map filename recs)"
    unfolding c using card_distinct[of "map filename recs"] distinct_card[of "map filename recs"]
    by auto
  show "collisions recs = length recs - card (filename ` set recs)"
    unfolding c collisions_def by (simp only: length_remdups_card_conv)
qed

lemma twins_run:
  "generateSpriteFromDirectory all_calls_succeed twins default_options =
     \<lparr>failure = None,
      written = [(''sprite.png'',
                  PngFile \<lparr>create_width = 40, create_height = 40,
                    layers = [\<lparr>c_input = [0, 0, 0, 0], c_left = 0, c_top = 0\<rparr>,
                              \<lparr>c_input = [0, 0, 0, 0], c_left = 20, c_top = 0\<rparr>]\<rparr>),
                 (''sprite.json'', JsonFile twins_document)]\<rparr>"
  by code_simp

lemma layout_cong:
  assumes "map width (img' # rest') = map width (img # rest)"
    and "map height (img' # rest') = map height (img # rest)"
    and "padding opts' = padding opts"
  shows "layout img' rest' opts' = layout img rest opts"
proof -
  from assms(1) have "length (map width rest') = length (map width rest)" by simp
  then have "length rest' = length rest" by simp
  then show ?thesis using assms by (simp add: layout_def Let_def)
qed

lemma nth_map_eq:
  "map f xs = map f ys \<Longrightarrow> j < length ys \<Longrightarrow> f (xs ! j) = f (ys ! j)"
  by (metis length_map nth_map)

lemma readable_cong:
  assumes "map (\<lambda>m. image m = None) recs' = map (\<lambda>m. image m = None) recs"
  shows "readable recs' j = readable recs j"
proof -
  from assms have len: "length recs' = length recs" by (rule map_eq_imp_length_eq)
  show ?thesis
  proof (cases "j < length recs")
    case True
    from nth_map_eq[OF assms True] show ?thesis
      using True len by (simp add: readable_def)
  next
    case False
    then show ?thesis using len by (simp add: readable_def)
  qed
qed

lemma entry_at_cong:
  assumes "map width recs' = map width recs" "map height recs' = map height recs" "j < length recs"
  shows "entry_at L recs' j = entry_at L recs j"
  using nth_map_eq[OF assms(1,3)] nth_map_eq[OF assms(2,3)] by (simp add: entry_at_def)

lemma layer_at_cong:
  assumes "map image recs' = map image recs" "j < length recs"
  shows "layer_at L recs' j = layer_at L recs j"
  using nth_map_eq[OF assms] by (simp add: layer_at_def)

lemma fold_cong_upt:
  "(\<And>j. j < n \<Longrightarrow> f j = g j) \<Longrightarrow> fold f [0..<n] a = fold g [0..<n] a"
  by (rule fold_cong) simp_all

lemma images_cong:
  assumes "map filename recs' = map filename recs" "map width recs' = map width recs"
    "map height recs' = map height recs" "n \<le> length recs"
  shows "fold (\<lambda>j. assign (filename (recs' ! j)) (entry_at L recs' j)) [0..<n] [] =
         fold (\<lambda>j. assign (filename (recs ! j)) (entry_at L recs j)) [0..<n] []"
proof (rule fold_cong_upt)
  fix j assume "j < n"
  then have j: "j < length recs" using assms(4) by simp
  show "assign (filename (recs' ! j)) (entry_at L recs' j) = assign (filename (recs ! j)) (entry_at L recs j)"
    using nth_map_eq[OF assms(1) j] entry_at_cong[OF assms(2,3) j] by simp
qed

lemma failure_generate_Cons:
  "failure (generateSpriteFromDirectory env (img # rest) opts) =
    (if spriteWidth (layout img rest opts) > maxSize opts \<or> spriteHeight (layout img rest opts) > maxSize opts
     then Some SizeExceeded
     else if create_throws env \<or> \<not> (\<forall>j<Suc (length rest). readable (img # rest) j) \<or>
             toFile_rejects env \<or> writeFileSync_throws env
     then Some CompositionError else None)"
  by (auto simp: generate_Cons Let_def)

lemma json_document_generate_Cons:
  "json_document (generateSpriteFromDirectory env (img # rest) opts) =
    (if failure (generateSpriteFromDirectory env (img # rest) opts) = None
     then Some \<lparr>json_spriteWidth = spriteWidth (layout img rest opts),
                 json_spriteHeight = spriteHeight (layout img rest opts),
                 json_gridSize = gridSize (layout img rest opts), json_imageCount = Suc (length rest),
                 json_images =
                   fold (\<lambda>j. assign (filename ((img # rest) ! j)) (entry_at (layout img rest opts) (img # rest) j))
                     [0..<Suc (length rest)] []\<rparr>
     else None)"
  by (simp add: generate_Cons Let_def json_document_def del: upt_Suc)

lemma png_sprite_generate_Cons:
  "png_sprite (generateSpriteFromDirectory env (img # rest) opts) =
    (if failure (generateSpriteFromDirectory env (img # rest) opts) = None \<or>
        (failure (generateSpriteFromDirectory env (img # rest) opts) = Some CompositionError \<and>
         \<not> create_throws env \<and> (\<forall>j<Suc (length rest). readable (img # rest) j) \<and>
         \<not> toFile_rejects env)
     then Some \<lparr>create_width = spriteWidth (layout img rest opts),
                 create_height = spriteHeight (layout img rest opts),
                 layers = map (layer_at (layout img rest opts) (img # rest)) [0..<Suc (length rest)]\<rparr>
     else None)"
  by (simp add: generate_Cons Let_def png_sprite_def del: upt_Suc)

lemma failure_cong:
  assumes "map width recs' = map width recs" "map height recs' = map height recs"
    "map (\<lambda>m. image m = None) recs' = map (\<lambda>m. image m = None) recs"
    "padding opts' = padding opts" "maxSize opts' = maxSize opts"
  shows "failure (generateSpriteFromDirectory env recs' opts') = failure (generateSpriteFromDirectory env recs opts)"
proof (cases recs)
  case Nil
  with assms(1) have "recs' = []" by simp
  with Nil show ?thesis by (simp add: generateSpriteFromDirectory_def)
next
  case (Cons img rest)
  with assms(1) obtain img' rest' where r': "recs' = img' # rest'" by (cases recs') auto
  have len: "length rest' = length rest"
    using map_eq_imp_length_eq[OF assms(1)] unfolding Cons r' by simp
  have L: "layout img' rest' opts' = layout img rest opts"
    using assms(1,2,4) unfolding Cons r' by (rule layout_cong)
  have rd: "readable (img' # rest') j = readable (img # rest) j" for j
    using readable_cong[OF assms(3)] unfolding Cons r' .
  show ?thesis
    unfolding Cons r' failure_generate_Cons L rd len assms(5) ..
qed

lemma unreadable_map:
  fixes recs recs' :: "ImageMeta list"
  assumes "map image recs' = map image recs"
  shows "map (\<lambda>m. image m = None) recs' = map (\<lambda>m. image m = None) recs"
proof -
  have "map (\<lambda>m. image m = None) xs = map (\<lambda>b. b = None) (map image xs)" for xs :: "ImageMeta list"
    by simp
  from this[of recs'] this[of recs] show ?thesis unfolding assms by (rule trans[OF _ sym])
qed

lemma png_sprite_cong:
  assumes "map width recs' = map width recs" "map height recs' = map height recs"
    "map image recs' = map image recs"
    "padding opts' = padding opts" "maxSize opts' = maxSize opts"
  shows "png_sprite (generateSpriteFromDirectory env recs' opts') = png_sprite (generateSpriteFromDirectory env recs opts)"
proof (cases recs)
  case Nil
  with assms(1) have "recs' = []" by simp
  with Nil show ?thesis by (simp add: generateSpriteFromDirectory_def png_sprite_def)
next
  case (Cons img rest)
  with assms(1) obtain img' rest' where r': "recs' = img' # rest'" by (cases recs') auto
  have len: "length rest' = length rest"
    using map_eq_imp_length_eq[OF assms(1)] unfolding Cons r' by simp
  have L: "layout img' rest' opts' = layout img rest opts"
    using assms(1,2,4) unfolding Cons r' by (rule layout_cong)
  have f: "failure (generateSpriteFromDirectory env (img' # rest') opts') =
      failure (generateSpriteFromDirectory env (img # rest) opts)"
    using failure_cong[OF assms(1,2) unreadable_map[OF assms(3)] assms(4,5)] unfolding Cons r' .
  have lay: "map (layer_at (layout img rest opts) (img' # rest')) [0..<Suc (length rest)] =
      map (layer_at (layout img rest opts) (img # rest)) [0..<Suc (length rest)]"
  proof (rule map_cong[OF refl])
    fix j assume "j \<in> set [0..<Suc (length rest)]"
    then have "j < length (img # rest)" by auto
    from layer_at_cong[OF assms(3)[unfolded Cons r'] this]
    show "layer_at (layout img rest opts) (img' # rest') j = layer_at (layout img rest opts) (img # rest) j" .
  qed
  have rd: "readable (img' # rest') j = readable (img # rest) j" for j
    using readable_cong[OF unreadable_map[OF assms(3)]] unfolding Cons r' .
  show ?thesis
    unfolding Cons r' png_sprite_generate_Cons f L len lay rd ..
qed

lemma json_document_cong:
  assumes "map filename recs' = map filename recs"
    "map width recs' = map width recs" "map height recs' = map height recs"
    "map (\<lambda>m. image m = None) recs' = map (\<lambda>m. image m = None) recs"
    "padding opts' = padding opts" "maxSize opts' = maxSize opts"
  shows "json_document (generateSpriteFromDirectory env recs' opts') = json_document (generateSpriteFromDirectory env recs opts)"
proof (cases recs)
  case Nil
  with assms(1) have "recs' = []" by simp
  with Nil show ?thesis by (simp add: generateSpriteFromDirectory_def json_document_def)
next
  case (Cons img rest)
  with assms(1) obtain img' rest' where r': "recs' = img' # rest'" by (cases recs') auto
  have len: "length rest' = length rest"
    using map_eq_imp_length_eq[OF assms(1)] unfolding Cons r' by simp
  have L: "layout img' rest' opts' = layout img rest opts"
    using assms(2,3,5) unfolding Cons r' by (rule layout_cong)
  have f: "failure (generateSpriteFromDirectory env (img' # rest') opts') =
      failure (generateSpriteFromDirectory env (img # rest) opts)"
    using failure_cong[OF assms(2-6)] unfolding Cons r' .
  have im: "fold (\<lambda>j. assign (filename ((img' # rest') ! j)) (entry_at (layout img rest opts) (img' # rest') j))
        [0..<Suc (length rest)] [] =
      fold (\<lambda>j. assign (filename ((img # rest) ! j)) (entry_at (layout img rest opts) (img # rest) j))
        [0..<Suc (length rest)] []"
    using assms(1-3) unfolding Cons r' by (rule images_cong) simp
  show ?thesis
    unfolding Cons r' json_document_generate_Cons f L len im ..
qed

lemma cell_fits:
  fixes c g :: nat and cw w :: int
  assumes "c < g" "w \<le> cw" "0 \<le> cw"
  shows "0 \<le> int c * cw \<and> int c * cw + w \<le> int g * cw"
proof -
  have "int c * cw + w \<le> int c * cw + cw" using assms(2) by simp
  also have "\<dots> = (int c + 1) * cw" by (simp add: algebra_simps)
  also have "\<dots> \<le> int g * cw"
    using assms(1,3) by (intro mult_right_mono) simp_all
  finally show ?thesis using assms(3) by simp
qed

lemma record_fits_cell:
  assumes "i < length (img # rest)" "0 \<le> padding opts"
  shows "width ((img # rest) ! i) \<le> maxCellWidth (layout img rest opts)"
    and "height ((img # rest) ! i) \<le> maxCellHeight (layout img rest opts)"
proof -
  have m: "(img # rest) ! i \<in> set (img # rest)" using assms(1) by (rule nth_mem)
  have "width ((img # rest) ! i) \<le> Max (width ` set (img # rest))"
    by (rule Max_ge[OF _ imageI[OF m]]) simp
  then show "width ((img # rest) ! i) \<le> maxCellWidth (layout img rest opts)"
    unfolding maxCell_layout using assms(2) by simp
  have "height ((img # rest) ! i) \<le> Max (height ` set (img # rest))"
    by (rule Max_ge[OF _ imageI[OF m]]) simp
  then show "height ((img # rest) ! i) \<le> maxCellHeight (layout img rest opts)"
    unfolding maxCell_layout using assms(2) by simp
qed

lemma cell_in_grid:
  assumes "i < length (img # rest)"
  shows "i mod gridSize (layout img rest opts) < gridSize (layout img rest opts)"
    and "i div gridSize (layout img rest opts) < gridSize (layout img rest opts)"
proof -
  let ?g = "gridSize (layout img rest opts)"
  have g: "0 < ?g" and n: "Suc (length rest) \<le> ?g * ?g"
    by (rule gridSize_layout_bounds)+
  show "i mod ?g < ?g" using g by simp
  have "i < ?g * ?g" using assms n by simp
  then show "i div ?g < ?g" by (rule less_mult_imp_div_less)
qed

subsection \<open>Sums and products of doubles\<close>

text \<open>
  Within \<open>within_doubles\<close> the sums and products of lines 73-76 and 116-117, computed in
  doubles, are the exact ones of \<open>layout\<close> and \<open>placeStep\<close>. Beyond it they are not: a
  width of 3 and a padding of \<open>2 ^ 53\<close> make a cell of \<open>2 ^ 53 + 4\<close>.
\<close>

lemma excess_bits_53: "excess_bits (2 ^ 53) = 1"
proof -
  have a: "(2::nat) ^ 53 div 2 = 2 ^ 52" by simp
  have b: "\<not> (2::nat) ^ 53 < 2 ^ 53" "(2::nat) ^ 52 < 2 ^ 53" by simp_all
  have "excess_bits (2 ^ 52) = 0"
    by (subst excess_bits.simps) (simp only: b if_True)
  then show ?thesis
    by (subst excess_bits.simps) (simp only: b a if_False One_nat_def)
qed

lemma nearest_double_rounds: "nearest_double (3 + 2 ^ 53) = 2 ^ 53 + 4"
proof -
  have n: "nat \<bar>3 + 2 ^ 53 :: int\<bar> = 2 ^ 53 + 3" by simp
  have h: "((2::nat) ^ 53 + 3) div 2 = 2 ^ 52 + 1" by simp
  have b: "\<not> (2::nat) ^ 53 + 3 < 2 ^ 53" "(2::nat) ^ 52 + 1 < 2 ^ 53" by simp_all
  have "excess_bits (2 ^ 52 + 1) = 0"
    by (subst excess_bits.simps) (simp only: b if_True)
  then have e: "excess_bits (2 ^ 53 + 3) = 1"
    by (subst excess_bits.simps) (simp only: b h if_False One_nat_def)
  show ?thesis
    unfolding nearest_double_def Let_def n e by simp
qed

lemma nearest_double_safe: "safe_integer v \<Longrightarrow> nearest_double v = v"
proof -
  assume "safe_integer v"
  then have le: "\<bar>v\<bar> \<le> 2 ^ 53" by (simp add: safe_integer_def)
  show ?thesis
  proof (cases "\<bar>v\<bar> < 2 ^ 53")
    case True
    then have "nat \<bar>v\<bar> < nat (2 ^ 53)" by (simp only: nat_mono_iff zero_less_power zero_less_numeral)
    then have "nat \<bar>v\<bar> < 2 ^ 53" by (simp add: nat_power_eq)
    then have "excess_bits (nat \<bar>v\<bar>) = 0" by (simp add: excess_bits.simps[of "nat \<bar>v\<bar>"])
    then show ?thesis by (simp add: nearest_double_def Let_def)
  next
    case False
    with le have v: "\<bar>v\<bar> = 2 ^ 53" by linarith
    then have a: "nat \<bar>v\<bar> = 2 ^ 53" by (simp add: nat_power_eq)
    have "sgn v * 2 ^ 53 = v" using v by (cases "0 \<le> v") (simp_all add: sgn_if)
    then show ?thesis
      unfolding nearest_double_def Let_def a excess_bits_53 by simp
  qed
qed

lemma js_add_safe: "safe_integer (a + b) \<Longrightarrow> js_add a b = a + b"
  by (simp add: js_add_def nearest_double_safe)

lemma js_mul_safe: "safe_integer (a * b) \<Longrightarrow> js_mul a b = a * b"
  by (simp add: js_mul_def nearest_double_safe)

lemma layout_doubles_eq:
  assumes "within_doubles img rest opts"
  shows "layout_doubles img rest opts = layout img rest opts"
proof -
  let ?L = "layout img rest opts"
  have w: "maxCellWidth ?L = Math_max (width img) (map width rest) + padding opts"
    and h: "maxCellHeight ?L = Math_max (height img) (map height rest) + padding opts"
    and sw: "spriteWidth ?L = int (gridSize ?L) * maxCellWidth ?L"
    and sh: "spriteHeight ?L = int (gridSize ?L) * maxCellHeight ?L"
    and g: "gridSize ?L = nat (Math_ceil (Math_sqrt (real (length (img # rest)))))"
    by (simp_all add: layout_def Let_def)
  from assms have s: "safe_integer (maxCellWidth ?L)" "safe_integer (maxCellHeight ?L)"
    "safe_integer (spriteWidth ?L)" "safe_integer (spriteHeight ?L)"
    by (simp_all add: within_doubles_def)
  have a: "js_add (Math_max (width img) (map width rest)) (padding opts) = maxCellWidth ?L"
    "js_add (Math_max (height img) (map height rest)) (padding opts) = maxCellHeight ?L"
    using s(1,2) unfolding w h by (simp_all add: js_add_safe)
  have m: "js_mul (int (gridSize ?L)) (maxCellWidth ?L) = spriteWidth ?L"
    "js_mul (int (gridSize ?L)) (maxCellHeight ?L) = spriteHeight ?L"
    using s(3,4) unfolding sw sh by (simp_all add: js_mul_safe)
  show ?thesis
    unfolding layout_doubles_def Let_def a g[symmetric] m
    by (simp add: layout_def Let_def)
qed

lemma layout_doubles_rounds:
  "maxCellWidth (layout_doubles (picture ''a.png'' 3 3) [] (default_options\<lparr>padding := 2 ^ 53\<rparr>))
     = 2 ^ 53 + 4"
proof -
  note nearest_double_rounds
  then show ?thesis
    by (simp add: layout_doubles_def Let_def Math_max_def picture_def default_options_def js_add_def)
qed

lemma product_safe:
  fixes c g :: nat and cw :: int
  assumes "c < g" "safe_integer (int g * cw)"
  shows "js_mul (int c) cw = int c * cw"
proof -
  have "\<bar>int c * cw\<bar> = int c * \<bar>cw\<bar>" by (simp add: abs_mult)
  also have "\<dots> \<le> int g * \<bar>cw\<bar>"
    using assms(1) by (intro mult_right_mono) simp_all
  also have "\<dots> = \<bar>int g * cw\<bar>" by (simp add: abs_mult)
  finally have "safe_integer (int c * cw)"
    using assms(2) by (simp add: safe_integer_def)
  then show ?thesis by (rule js_mul_safe)
qed

lemma offsets_exact:
  assumes "within_doubles img rest opts" "i < length (img # rest)"
  shows "js_mul (int (i mod gridSize (layout img rest opts))) (maxCellWidth (layout img rest opts)) =
           int (i mod gridSize (layout img rest opts)) * maxCellWidth (layout img rest opts)"
    and "js_mul (int (i div gridSize (layout img rest opts))) (maxCellHeight (layout img rest opts)) =
           int (i div gridSize (layout img rest opts)) * maxCellHeight (layout img rest opts)"
proof -
  let ?L = "layout img rest opts"
  from assms(1) have s: "safe_integer (int (gridSize ?L) * maxCellWidth ?L)"
    "safe_integer (int (gridSize ?L) * maxCellHeight ?L)"
    by (simp_all add: within_doubles_def flip: sprite_layout)
  from product_safe[OF cell_in_grid(1)[OF assms(2)] s(1)]
  show "js_mul (int (i mod gridSize ?L)) (maxCellWidth ?L) = int (i mod gridSize ?L) * maxCellWidth ?L" .
  from product_safe[OF cell_in_grid(2)[OF assms(2)] s(2)]
  show "js_mul (int (i div gridSize ?L)) (maxCellHeight ?L) = int (i div gridSize ?L) * maxCellHeight ?L" .
qed

lemma within_doubles_four: "within_doubles four_first four_rest padded_options"
  by (simp add: within_doubles_def safe_integer_def layout_code Let_def ceil_sqrt_from.simps
      Math_max_def four_first_def four_rest_def picture_def padded_options_def default_options_def)



section \<open>The properties of the specification\<close>


text \<open>
  C1. For a record sequence of length \<open>n \<ge> 1\<close> the grid size of the layout is
  \<open>\<lceil>sqrt n\<rceil>\<close>, that is the least \<open>g\<close> with \<open>n \<le> g * g\<close>: it is 1 for one record, 2 for two
  to four, 3 for five to nine and 4 for ten to sixteen, and it is the \<open>gridSize\<close> of the
  JSON document when the run writes one.
\<close>

theorem C1_gridSize_ceil_sqrt:
  "let n = length (img # rest); g = gridSize (layout img rest opts)
   in int g = \<lceil>sqrt (real n)\<rceil> \<and> 1 \<le> g \<and> (g - 1) * (g - 1) < n \<and> n \<le> g * g \<and>
      (n = 1 \<longrightarrow> g = 1) \<and> (2 \<le> n \<and> n \<le> 4 \<longrightarrow> g = 2) \<and>
      (5 \<le> n \<and> n \<le> 9 \<longrightarrow> g = 3) \<and> (10 \<le> n \<and> n \<le> 16 \<longrightarrow> g = 4) \<and>
      (\<forall>d. json_document (generateSpriteFromDirectory env (img # rest) opts) = Some d \<longrightarrow> json_gridSize d = g)"
proof -
  let ?n = "Suc (length rest)" and ?g = "gridSize (layout img rest opts)"
  have g: "?g = nat \<lceil>sqrt (real ?n)\<rceil>" by (rule gridSize_layout)
  have "0 < sqrt (real ?n)" by (simp only: real_sqrt_gt_0_iff of_nat_0_less_iff zero_less_Suc)
  then have "0 < \<lceil>sqrt (real ?n)\<rceil>" by (simp only: zero_less_ceiling)
  then have c: "int ?g = \<lceil>sqrt (real ?n)\<rceil>"
    unfolding g using nat_0_le[of "\<lceil>sqrt (real ?n)\<rceil>"] by linarith
  have t1: "?n = 1 \<longrightarrow> ?g = 1"
    by (intro impI gridSize_table) auto
  have t2: "2 \<le> ?n \<and> ?n \<le> 4 \<longrightarrow> ?g = 2"
    by (intro impI gridSize_table) auto
  have t3: "5 \<le> ?n \<and> ?n \<le> 9 \<longrightarrow> ?g = 3"
    by (intro impI gridSize_table) auto
  have t4: "10 \<le> ?n \<and> ?n \<le> 16 \<longrightarrow> ?g = 4"
    by (intro impI gridSize_table) auto
  have d: "\<forall>d. json_document (generateSpriteFromDirectory env (img # rest) opts) = Some d \<longrightarrow> json_gridSize d = ?g"
    using json_document_generate by blast
  show ?thesis
    unfolding Let_def list.size
    using c gridSize_layout_bounds[where img=img and rest=rest and opts=opts] t1 t2 t3 t4 d by simp
qed

text \<open>C1, at one, four, nine and sixteen images, and in the document of a run on two.\<close>

theorem C1_gridSize_ceil_sqrt_witness:
  "gridSize (layout (picture ''a.png'' 8 8) [] default_options) = 1 \<and>
   gridSize (layout (picture ''a.png'' 8 8) (replicate 3 (picture ''b.png'' 8 8)) default_options) = 2 \<and>
   gridSize (layout (picture ''a.png'' 8 8) (replicate 8 (picture ''b.png'' 8 8)) default_options) = 3 \<and>
   gridSize (layout (picture ''a.png'' 8 8) (replicate 15 (picture ''b.png'' 8 8)) default_options) = 4 \<and>
   json_document (generateSpriteFromDirectory all_calls_succeed [picture ''a.png'' 8 8, picture ''b.png'' 8 8] default_options)
     = Some \<lparr>json_spriteWidth = 16, json_spriteHeight = 16, json_gridSize = 2, json_imageCount = 2,
         json_images = [(''a.png'', \<lparr>pos_x = 0, pos_y = 0, pos_width = 8, pos_height = 8\<rparr>),
                        (''b.png'', \<lparr>pos_x = 8, pos_y = 0, pos_width = 8, pos_height = 8\<rparr>)]\<rparr>"
proof -
  have run: "json_document (generateSpriteFromDirectory all_calls_succeed [picture ''a.png'' 8 8, picture ''b.png'' 8 8] default_options)
     = Some \<lparr>json_spriteWidth = 16, json_spriteHeight = 16, json_gridSize = 2, json_imageCount = 2,
         json_images = [(''a.png'', \<lparr>pos_x = 0, pos_y = 0, pos_width = 8, pos_height = 8\<rparr>),
                        (''b.png'', \<lparr>pos_x = 8, pos_y = 0, pos_width = 8, pos_height = 8\<rparr>)]\<rparr>"
    by (simp add: generate_Cons all_calls_succeed_def layout_code Let_def ceil_sqrt_from.simps
        Math_max_def readable_def picture_def default_options_def json_document_def entry_at_def
        less_Suc_eq)
  show ?thesis
    using C1_gridSize_ceil_sqrt[of "picture ''a.png'' 8 8" "[]" default_options]
      C1_gridSize_ceil_sqrt[of "picture ''a.png'' 8 8" "replicate 3 (picture ''b.png'' 8 8)" default_options]
      C1_gridSize_ceil_sqrt[of "picture ''a.png'' 8 8" "replicate 8 (picture ''b.png'' 8 8)" default_options]
      C1_gridSize_ceil_sqrt[of "picture ''a.png'' 8 8" "replicate 15 (picture ''b.png'' 8 8)" default_options]
      run
    by (simp add: Let_def)
qed

text \<open>
  C2. For a non-empty record sequence and any padding (so for every padding \<open>\<ge> 0\<close>) whose
  sizes stay within the integers that doubles hold exactly, the cell that lines 73-74
  compute is the largest width by the largest height, each plus the padding, and the sheet
  of lines 75-76 is the grid size times the cell in both directions; the document and the
  canvas carry the sheet size.
\<close>

theorem C2_cell_and_sheet_size:
  assumes "within_doubles img rest opts"
  shows "let recs = img # rest; L = layout_doubles img rest opts
   in L = layout img rest opts \<and>
      maxCellWidth L = Max (width ` set recs) + padding opts \<and>
      maxCellHeight L = Max (height ` set recs) + padding opts \<and>
      spriteWidth L = int (gridSize L) * maxCellWidth L \<and>
      spriteHeight L = int (gridSize L) * maxCellHeight L \<and>
      spriteWidth L = \<lceil>sqrt (real (length recs))\<rceil> * (Max (width ` set recs) + padding opts) \<and>
      spriteHeight L = \<lceil>sqrt (real (length recs))\<rceil> * (Max (height ` set recs) + padding opts) \<and>
      (\<forall>d. json_document (generateSpriteFromDirectory env recs opts) = Some d \<longrightarrow>
         json_spriteWidth d = spriteWidth L \<and> json_spriteHeight d = spriteHeight L) \<and>
      (\<forall>s. png_sprite (generateSpriteFromDirectory env recs opts) = Some s \<longrightarrow>
         create_width s = spriteWidth L \<and> create_height s = spriteHeight L)"
proof -
  let ?L = "layout img rest opts"
  have eq: "layout_doubles img rest opts = ?L"
    using assms by (rule layout_doubles_eq)
  have g: "int (gridSize ?L) = \<lceil>sqrt (real (length (img # rest)))\<rceil>"
    using gridSize_layout_int[of img rest opts] by simp
  show ?thesis
    unfolding Let_def eq
    using maxCell_layout[of img rest opts] sprite_layout[of img rest opts] g
      json_document_generate[of env img rest opts] png_sprite_generate[of env img rest opts]
    by simp
qed

text \<open>C2 on four images of at most 50 by 50 with padding 10: cells of 60, a sheet of 120.\<close>

theorem C2_cell_and_sheet_size_witness:
  "within_doubles four_first four_rest padded_options \<and>
   maxCellWidth (layout_doubles four_first four_rest padded_options) = 60 \<and>
   maxCellHeight (layout_doubles four_first four_rest padded_options) = 60 \<and>
   spriteWidth (layout_doubles four_first four_rest padded_options) = 120 \<and>
   spriteHeight (layout_doubles four_first four_rest padded_options) = 120 \<and>
   json_document (generateSpriteFromDirectory all_calls_succeed (four_first # four_rest) padded_options)
     = Some four_document \<and>
   json_spriteWidth four_document = 120 \<and> json_spriteHeight four_document = 120"
proof -
  have L: "layout_doubles four_first four_rest padded_options = layout four_first four_rest padded_options"
    using C2_cell_and_sheet_size[OF within_doubles_four] unfolding Let_def by blast
  have v: "maxCellWidth (layout four_first four_rest padded_options) = 60"
    "maxCellHeight (layout four_first four_rest padded_options) = 60"
    "spriteWidth (layout four_first four_rest padded_options) = 120"
    "spriteHeight (layout four_first four_rest padded_options) = 120"
    by (simp_all add: layout_code Let_def ceil_sqrt_from.simps Math_max_def four_first_def
        four_rest_def picture_def padded_options_def default_options_def)
  have d: "json_document (generateSpriteFromDirectory all_calls_succeed (four_first # four_rest) padded_options)
     = Some four_document"
    by (simp add: four_run json_document_def)
  show ?thesis
    unfolding L using within_doubles_four v d by (simp add: four_document_def)
qed

text \<open>
  C3. In a run that writes its files, the layer of index \<open>i\<close> is the image of record \<open>i\<close>
  at column \<open>i mod gridSize\<close> and row \<open>i div gridSize\<close>, that is at
  \<open>x = col * cellWidth\<close>, \<open>y = row * cellHeight\<close>, the layers are in input order, the
  entry of the document under the name of record \<open>i\<close> has the same \<open>x\<close> and \<open>y\<close> (when no
  later record has that name), and no two indices share a cell.
\<close>

theorem C3_row_major_placement:
  assumes "png_sprite (generateSpriteFromDirectory env (img # rest) opts) = Some s"
    and "json_document (generateSpriteFromDirectory env (img # rest) opts) = Some d"
  shows "let recs = img # rest; L = layout img rest opts; g = gridSize L
         in length (layers s) = length recs \<and>
            (\<forall>i<length recs.
               image (recs ! i) = Some (c_input (layers s ! i)) \<and>
               c_left (layers s ! i) = int (i mod g) * maxCellWidth L \<and>
               c_top (layers s ! i) = int (i div g) * maxCellHeight L \<and>
               ((\<forall>j. i < j \<and> j < length recs \<longrightarrow> filename (recs ! j) \<noteq> filename (recs ! i)) \<longrightarrow>
                  map_option pos_x (lookup (json_images d) (filename (recs ! i)))
                    = Some (int (i mod g) * maxCellWidth L) \<and>
                  map_option pos_y (lookup (json_images d) (filename (recs ! i)))
                    = Some (int (i div g) * maxCellHeight L))) \<and>
            inj_on (\<lambda>i. (i div g, i mod g)) {0..<length recs}"
proof -
  let ?recs = "img # rest" and ?L = "layout img rest opts"
  let ?n = "Suc (length rest)"
  from png_sprite_generate[OF assms(1)]
  have lay: "layers s = map (layer_at ?L ?recs) [0..<?n]"
    and rd: "\<forall>j<?n. readable ?recs j" by simp_all
  from json_document_generate[OF assms(2)]
  have im: "json_images d = fold (\<lambda>j. assign (filename (?recs ! j)) (entry_at ?L ?recs j)) [0..<?n] []"
    by simp
  have len: "length (layers s) = ?n" unfolding lay by (simp del: upt_Suc)
  have each: "image (?recs ! i) = Some (c_input (layers s ! i)) \<and>
      c_left (layers s ! i) = int (i mod gridSize ?L) * maxCellWidth ?L \<and>
      c_top (layers s ! i) = int (i div gridSize ?L) * maxCellHeight ?L \<and>
      ((\<forall>j. i < j \<and> j < ?n \<longrightarrow> filename (?recs ! j) \<noteq> filename (?recs ! i)) \<longrightarrow>
         map_option pos_x (lookup (json_images d) (filename (?recs ! i)))
           = Some (int (i mod gridSize ?L) * maxCellWidth ?L) \<and>
         map_option pos_y (lookup (json_images d) (filename (?recs ! i)))
           = Some (int (i div gridSize ?L) * maxCellHeight ?L))" if i: "i < ?n" for i
  proof -
    have nth: "layers s ! i = layer_at ?L ?recs i"
      unfolding lay using i by (simp del: upt_Suc)
    have "readable ?recs i" using rd i by blast
    then have buf: "image (?recs ! i) = Some (c_input (layers s ! i))"
      unfolding nth by (auto simp: readable_def layer_at_def)
    have last: "lookup (json_images d) (filename (?recs ! i)) = Some (entry_at ?L ?recs i)"
      if "\<forall>j. i < j \<and> j < ?n \<longrightarrow> filename (?recs ! j) \<noteq> filename (?recs ! i)"
      unfolding im using i that
      by (rule lookup_images_last[where f = "\<lambda>j. filename (?recs ! j)"])
    show ?thesis
      using buf last unfolding nth by (simp add: layer_at_def entry_at_def)
  qed
  show ?thesis
    unfolding Let_def list.size using len each cell_inj by simp
qed

text \<open>C3 on the four images: cells (0,0), (0,1), (1,0), (1,1) in input order.\<close>

theorem C3_row_major_placement_witness:
  "png_sprite (generateSpriteFromDirectory all_calls_succeed (four_first # four_rest) padded_options) = Some four_sprite \<and>
   json_document (generateSpriteFromDirectory all_calls_succeed (four_first # four_rest) padded_options) = Some four_document \<and>
   map c_left (layers four_sprite) = [0, 60, 0, 60] \<and>
   map c_top (layers four_sprite) = [0, 0, 60, 60] \<and>
   inj_on (\<lambda>i::nat. (i div 2, i mod 2)) {0..<4}"
proof -
  have s: "png_sprite (generateSpriteFromDirectory all_calls_succeed (four_first # four_rest) padded_options) = Some four_sprite"
    by (simp add: four_run png_sprite_def)
  have d: "json_document (generateSpriteFromDirectory all_calls_succeed (four_first # four_rest) padded_options) = Some four_document"
    by (simp add: four_run json_document_def)
  have g: "gridSize (layout four_first four_rest padded_options) = 2"
    by (simp add: layout_code Let_def ceil_sqrt_from.simps four_rest_def)
  have n: "length (four_first # four_rest) = 4"
    by (simp add: four_rest_def)
  have "inj_on (\<lambda>i::nat. (i div 2, i mod 2)) {0..<4}"
    using C3_row_major_placement[OF s d] unfolding Let_def g n by blast
  then show ?thesis
    using s d by (simp add: four_sprite_def)
qed

text \<open>
  C4. A run on at least one record, with sizes within the integers that doubles hold
  exactly, fails with \<open>SizeExceeded\<close> exactly when the sheet is wider or higher than the
  limit, so a sheet equal to the limit passes the check; under that failure nothing is
  written. The check is the only one on the layout: once it has passed, a run fails only
  by an exception of sharp or of the file system (in creating the canvas, reading an
  image, saving the sheet, writing the document), and without one it writes both files.
\<close>

theorem C4_size_check:
  assumes "within_doubles img rest opts"
  shows "let recs = img # rest; L = layout_doubles img rest opts;
             r = generateSpriteFromDirectory env recs opts
   in (failure r = Some SizeExceeded \<longleftrightarrow>
         spriteWidth L > maxSize opts \<or> spriteHeight L > maxSize opts) \<and>
      (failure r = Some SizeExceeded \<longrightarrow>
         written r = [] \<and> png_sprite r = None \<and> json_document r = None) \<and>
      failure r \<noteq> Some EmptyInputSet \<and>
      (spriteWidth L \<le> maxSize opts \<and> spriteHeight L \<le> maxSize opts \<longrightarrow>
         (failure r = None \<longleftrightarrow>
            \<not> create_throws env \<and> (\<forall>m\<in>set recs. image m \<noteq> None) \<and>
            \<not> toFile_rejects env \<and> \<not> writeFileSync_throws env) \<and>
         (failure r \<noteq> None \<longrightarrow> failure r = Some CompositionError)) \<and>
      (failure r = None \<longrightarrow> png_sprite r \<noteq> None \<and> json_document r \<noteq> None)"
proof -
  let ?recs = "img # rest"
  have eq: "layout_doubles img rest opts = layout img rest opts"
    using assms by (rule layout_doubles_eq)
  have rd: "(\<forall>j<Suc (length rest). readable ?recs j) \<longleftrightarrow> (\<forall>m\<in>set ?recs. image m \<noteq> None)"
    using readable_all[of ?recs] by simp
  show ?thesis
    unfolding Let_def eq failure_generate_Cons rd
    by (auto simp: generate_Cons Let_def rd png_sprite_def json_document_def)
qed

text \<open>C4 on one image of 100 by 100, when no call fails: a limit of 100 passes and both files
  are written, a limit of 99 does not and nothing is written.\<close>

theorem C4_size_check_witness:
  "within_doubles (picture ''a.png'' 100 100) [] (default_options\<lparr>maxSize := 100\<rparr>) \<and>
   failure (generateSpriteFromDirectory all_calls_succeed [picture ''a.png'' 100 100]
     (default_options\<lparr>maxSize := 100\<rparr>)) = None \<and>
   map_option create_width
     (png_sprite (generateSpriteFromDirectory all_calls_succeed [picture ''a.png'' 100 100]
       (default_options\<lparr>maxSize := 100\<rparr>))) = Some 100 \<and>
   within_doubles (picture ''a.png'' 100 100) [] (default_options\<lparr>maxSize := 99\<rparr>) \<and>
   failure (generateSpriteFromDirectory all_calls_succeed [picture ''a.png'' 100 100]
     (default_options\<lparr>maxSize := 99\<rparr>)) = Some SizeExceeded \<and>
   written (generateSpriteFromDirectory all_calls_succeed [picture ''a.png'' 100 100]
     (default_options\<lparr>maxSize := 99\<rparr>)) = []"
proof -
  let ?p = "picture ''a.png'' 100 100"
  have L: "spriteWidth (layout ?p [] opts) = 100 + padding opts"
    "spriteHeight (layout ?p [] opts) = 100 + padding opts"
    "maxCellWidth (layout ?p [] opts) = 100 + padding opts"
    "maxCellHeight (layout ?p [] opts) = 100 + padding opts" for opts
    by (simp_all add: layout_code Let_def ceil_sqrt_from.simps Math_max_def picture_def)
  have wd: "within_doubles ?p [] (default_options\<lparr>maxSize := 100\<rparr>)"
    "within_doubles ?p [] (default_options\<lparr>maxSize := 99\<rparr>)"
    by (simp_all add: within_doubles_def L safe_integer_def default_options_def)
      (simp_all add: picture_def)
  have LD: "spriteWidth (layout_doubles ?p [] (default_options\<lparr>maxSize := 100\<rparr>)) = 100"
    "spriteHeight (layout_doubles ?p [] (default_options\<lparr>maxSize := 100\<rparr>)) = 100"
    "spriteWidth (layout_doubles ?p [] (default_options\<lparr>maxSize := 99\<rparr>)) = 100"
    "spriteHeight (layout_doubles ?p [] (default_options\<lparr>maxSize := 99\<rparr>)) = 100"
    unfolding layout_doubles_eq[OF wd(1)] layout_doubles_eq[OF wd(2)] L
    by (simp_all add: default_options_def)
  have im: "image (picture f a b) = Some [0, 0, 0, 0]" for f a b
    by (simp add: picture_def)
  have w: "map_option create_width
     (png_sprite (generateSpriteFromDirectory all_calls_succeed [?p] (default_options\<lparr>maxSize := 100\<rparr>)))
     = Some 100"
    by (simp add: run_eval)
  show ?thesis
    using C4_size_check[OF wd(1), of all_calls_succeed] C4_size_check[OF wd(2), of all_calls_succeed] w wd
    by (simp add: Let_def LD im all_calls_succeed_def)
qed






text \<open>
  C7. When two records have one file name and no later record has it, the entry of the
  document under that name is the later record's. The assignment of line 126 that
  overwrites leaves the keys and their order as they were and changes no entry under
  another name. Nothing fails: the run has written its files, and the same records under
  any other names end the same way with the same sprite.
\<close>

theorem C7_later_record_overwrites:
  assumes "json_document (generateSpriteFromDirectory env (img # rest) opts) = Some d"
    and "i < j" and "j < length (img # rest)"
    and "filename ((img # rest) ! i) = filename ((img # rest) ! j)"
    and "\<forall>k. j < k \<and> k < length (img # rest) \<longrightarrow> filename ((img # rest) ! k) \<noteq> filename ((img # rest) ! j)"
  shows "let recs = img # rest; L = layout img rest opts; g = gridSize L
         in lookup (json_images d) (filename (recs ! i)) =
              Some \<lparr>pos_x = int (j mod g) * maxCellWidth L, pos_y = int (j div g) * maxCellHeight L,
                    pos_width = width (recs ! j), pos_height = height (recs ! j)\<rparr> \<and>
            (\<forall>st st'. placeStep L recs j st = Inr st' \<and> filename (recs ! j) \<in> set (keys (positions st)) \<longrightarrow>
               keys (positions st') = keys (positions st) \<and>
               (\<forall>k. k \<noteq> filename (recs ! j) \<longrightarrow> lookup (positions st') k = lookup (positions st) k)) \<and>
            failure (generateSpriteFromDirectory env recs opts) = None \<and>
            (\<forall>recs'. map width recs' = map width recs \<and> map height recs' = map height recs \<and>
                map image recs' = map image recs \<longrightarrow>
                failure (generateSpriteFromDirectory env recs' opts) = None \<and>
                png_sprite (generateSpriteFromDirectory env recs' opts) =
                  png_sprite (generateSpriteFromDirectory env recs opts))"
proof -
  let ?recs = "img # rest" and ?L = "layout img rest opts"
  let ?n = "Suc (length rest)"
  from json_document_generate[OF assms(1)]
  have im: "json_images d = fold (\<lambda>j. assign (filename (?recs ! j)) (entry_at ?L ?recs j)) [0..<?n] []"
    by simp
  have jn: "j < ?n" using assms(3) by simp
  have later: "\<forall>k. j < k \<and> k < ?n \<longrightarrow> filename (?recs ! k) \<noteq> filename (?recs ! j)"
    using assms(5) by simp
  have "lookup (json_images d) (filename (?recs ! j)) = Some (entry_at ?L ?recs j)"
    unfolding im using jn later
    by (rule lookup_images_last[where f = "\<lambda>j. filename (?recs ! j)"])
  then have final: "lookup (json_images d) (filename (?recs ! i)) =
      Some \<lparr>pos_x = int (j mod gridSize ?L) * maxCellWidth ?L, pos_y = int (j div gridSize ?L) * maxCellHeight ?L,
            pos_width = width (?recs ! j), pos_height = height (?recs ! j)\<rparr>"
    unfolding assms(4) entry_at_def .
  have step: "keys (positions st') = keys (positions st) \<and>
      (\<forall>k. k \<noteq> filename (?recs ! j) \<longrightarrow> lookup (positions st') k = lookup (positions st) k)"
    if "placeStep ?L ?recs j st = Inr st'" "filename (?recs ! j) \<in> set (keys (positions st))" for st st'
    using that by (auto simp: placeStep_eq keys_assign lookup_assign split: if_splits)
  have ok: "failure (generateSpriteFromDirectory env ?recs opts) = None"
    using assms(1) unfolding json_document_generate_Cons by (simp split: if_splits)
  have same: "failure (generateSpriteFromDirectory env recs' opts) = None \<and>
      png_sprite (generateSpriteFromDirectory env recs' opts) = png_sprite (generateSpriteFromDirectory env ?recs opts)"
    if "map width recs' = map width ?recs" "map height recs' = map height ?recs"
      "map image recs' = map image ?recs" for recs'
    using failure_cong[where opts' = opts and opts = opts and env = env,
        OF that(1,2) unreadable_map[OF that(3)] refl refl]
      png_sprite_cong[where opts' = opts and opts = opts and env = env, OF that refl refl] ok
    by simp
  show ?thesis
    unfolding Let_def using final step ok same by blast
qed

text \<open>C7 on the two records named \<open>a.png\<close>: the entry is the second record's, 20 by 20 in
  the second cell.\<close>

theorem C7_later_record_overwrites_witness:
  "json_document (generateSpriteFromDirectory all_calls_succeed twins default_options) = Some twins_document \<and>
   filename (twins ! 0) = filename (twins ! 1) \<and>
   lookup (json_images twins_document) (filename (twins ! 0)) =
     Some \<lparr>pos_x = 20, pos_y = 0, pos_width = 20, pos_height = 20\<rparr> \<and>
   failure (generateSpriteFromDirectory all_calls_succeed twins default_options) = None"
proof -
  let ?a = "picture ''a.png'' 10 10" and ?b = "picture ''a.png'' 20 20"
  have d: "json_document (generateSpriteFromDirectory all_calls_succeed (?a # [?b]) default_options) = Some twins_document"
    using twins_run by (simp add: json_document_def twins_def)
  have ij: "(0::nat) < 1" "1 < length (?a # [?b])" by simp_all
  have same: "filename ((?a # [?b]) ! 0) = filename ((?a # [?b]) ! 1)"
    by (simp add: picture_def)
  have later: "\<forall>k. 1 < k \<and> k < length (?a # [?b]) \<longrightarrow> filename ((?a # [?b]) ! k) \<noteq> filename ((?a # [?b]) ! 1)"
    by simp
  have "failure (generateSpriteFromDirectory all_calls_succeed (?a # [?b]) default_options) = None"
    using C7_later_record_overwrites[OF d ij same later] unfolding Let_def by blast
  then show ?thesis
    using d same by (simp add: twins_def twins_document_def lookup_def picture_def)
qed

text \<open>
  C8. The layout, the outcome and the document of a run are determined by the file names,
  widths and heights of the records in their order, by which images can be read, and by
  the padding and the size limit: two runs that agree on these (so, two runs on the same
  records with the same padding and limit) have the same layout, end the same way
  and write the same document. The bytes of the images and the output name play no part.
\<close>

theorem C8_deterministic_layout:
  assumes "map filename recs1 = map filename recs2"
    and "map width recs1 = map width recs2"
    and "map height recs1 = map height recs2"
    and "map (\<lambda>m. image m = None) recs1 = map (\<lambda>m. image m = None) recs2"
    and "padding opts1 = padding opts2"
    and "maxSize opts1 = maxSize opts2"
  shows "failure (generateSpriteFromDirectory env recs1 opts1) = failure (generateSpriteFromDirectory env recs2 opts2) \<and>
         json_document (generateSpriteFromDirectory env recs1 opts1) =
           json_document (generateSpriteFromDirectory env recs2 opts2) \<and>
         (\<forall>img1 rest1 img2 rest2. recs1 = img1 # rest1 \<and> recs2 = img2 # rest2 \<longrightarrow>
            layout img1 rest1 opts1 = layout img2 rest2 opts2)"
proof -
  have "layout img1 rest1 opts1 = layout img2 rest2 opts2"
    if "recs1 = img1 # rest1" "recs2 = img2 # rest2" for img1 rest1 img2 rest2
    using assms(2,3,5) unfolding that by (rule layout_cong)
  then show ?thesis
    using failure_cong[OF assms(2-6)] json_document_cong[OF assms] by blast
qed

text \<open>C8 on the four images: the run again, and a run under another output name on images
  of other bytes, write the same document.\<close>

theorem C8_deterministic_layout_witness:
  "json_document (generateSpriteFromDirectory all_calls_succeed (four_first # four_rest) padded_options) = Some four_document \<and>
   json_document (generateSpriteFromDirectory all_calls_succeed
       (map (image_update (\<lambda>_. Some [255])) (four_first # four_rest))
       (padded_options\<lparr>name := ''icons''\<rparr>)) = Some four_document \<and>
   failure (generateSpriteFromDirectory all_calls_succeed
       (map (image_update (\<lambda>_. Some [255])) (four_first # four_rest))
       (padded_options\<lparr>name := ''icons''\<rparr>)) = None"
proof -
  let ?recs = "four_first # four_rest"
  let ?recs' = "map (image_update (\<lambda>_. Some [255])) ?recs"
  let ?opts' = "padded_options\<lparr>name := ''icons''\<rparr>"
  have a: "map filename ?recs' = map filename ?recs" "map width ?recs' = map width ?recs"
    "map height ?recs' = map height ?recs"
    by (simp_all add: comp_def)
  have b: "map (\<lambda>m. image m = None) ?recs' = map (\<lambda>m. image m = None) ?recs"
    by (simp add: four_first_def four_rest_def picture_def)
  have c: "padding ?opts' = padding padded_options" "maxSize ?opts' = maxSize padded_options"
    by simp_all
  have d: "json_document (generateSpriteFromDirectory all_calls_succeed ?recs padded_options) = Some four_document"
    by (simp add: four_run json_document_def)
  have f: "failure (generateSpriteFromDirectory all_calls_succeed ?recs padded_options) = None"
    by (simp add: four_run)
  show ?thesis
    using C8_deterministic_layout[OF a b c] d f by simp
qed

text \<open>
  C9. When every width and height is positive and the padding is not negative, every
  record is placed in a cell of the grid, is no larger than the cell, and lies inside the
  sheet: \<open>0 \<le> x\<close>, \<open>x + width \<le> spriteWidth\<close>, \<open>0 \<le> y\<close>, \<open>y + height \<le> spriteHeight\<close>; the
  same holds for every entry of the document that a run writes.
\<close>

theorem C9_images_inside_sheet:
  assumes "\<forall>m\<in>set (img # rest). 0 < width m \<and> 0 < height m"
    and "0 \<le> padding opts"
  shows "let recs = img # rest; L = layout img rest opts; g = gridSize L
         in (\<forall>i<length recs.
               i mod g < g \<and> i div g < g \<and>
               width (recs ! i) \<le> maxCellWidth L \<and> height (recs ! i) \<le> maxCellHeight L \<and>
               0 \<le> int (i mod g) * maxCellWidth L \<and>
               int (i mod g) * maxCellWidth L + width (recs ! i) \<le> spriteWidth L \<and>
               0 \<le> int (i div g) * maxCellHeight L \<and>
               int (i div g) * maxCellHeight L + height (recs ! i) \<le> spriteHeight L) \<and>
            (\<forall>d k e. json_document (generateSpriteFromDirectory env recs opts) = Some d \<and>
               lookup (json_images d) k = Some e \<longrightarrow>
               0 \<le> pos_x e \<and> pos_x e + pos_width e \<le> json_spriteWidth d \<and>
               0 \<le> pos_y e \<and> pos_y e + pos_height e \<le> json_spriteHeight d)"
proof -
  let ?recs = "img # rest" and ?L = "layout img rest opts"
  let ?g = "gridSize ?L" and ?n = "Suc (length rest)"
  have each: "i mod ?g < ?g \<and> i div ?g < ?g \<and>
      width (?recs ! i) \<le> maxCellWidth ?L \<and> height (?recs ! i) \<le> maxCellHeight ?L \<and>
      0 \<le> int (i mod ?g) * maxCellWidth ?L \<and>
      int (i mod ?g) * maxCellWidth ?L + width (?recs ! i) \<le> spriteWidth ?L \<and>
      0 \<le> int (i div ?g) * maxCellHeight ?L \<and>
      int (i div ?g) * maxCellHeight ?L + height (?recs ! i) \<le> spriteHeight ?L"
    if i: "i < length ?recs" for i
  proof -
    have m: "?recs ! i \<in> set ?recs" using i by (rule nth_mem)
    then have pos: "0 < width (?recs ! i)" "0 < height (?recs ! i)" using assms(1) by blast+
    note fit = record_fits_cell[OF i assms(2)]
    note cell = cell_in_grid[OF i, of opts]
    have cw: "0 \<le> maxCellWidth ?L" and ch: "0 \<le> maxCellHeight ?L"
      using pos fit by linarith+
    from cell_fits[OF cell(1) fit(1) cw] cell_fits[OF cell(2) fit(2) ch]
    show ?thesis
      unfolding sprite_layout using fit cell by blast
  qed
  have doc: "0 \<le> pos_x e \<and> pos_x e + pos_width e \<le> json_spriteWidth d \<and>
      0 \<le> pos_y e \<and> pos_y e + pos_height e \<le> json_spriteHeight d"
    if d: "json_document (generateSpriteFromDirectory env ?recs opts) = Some d"
      and e: "lookup (json_images d) k = Some e" for d k e
  proof -
    from json_document_generate[OF d]
    have sw: "json_spriteWidth d = spriteWidth ?L" and sh: "json_spriteHeight d = spriteHeight ?L"
      and im: "json_images d = fold (\<lambda>j. assign (filename (?recs ! j)) (entry_at ?L ?recs j)) [0..<?n] []"
      by simp_all
    from e have "lookup (fold (\<lambda>j. assign (filename (?recs ! j)) (entry_at ?L ?recs j)) [0..<?n] []) k = Some e"
      unfolding im .
    from lookup_images_source[OF this]
    obtain j where j: "j < ?n" "e = entry_at ?L ?recs j" by blast
    have "j < length ?recs" using j(1) by simp
    from each[OF this] show ?thesis
      unfolding sw sh j(2) by (simp add: entry_at_def)
  qed
  show ?thesis
    unfolding Let_def using each doc by blast
qed

text \<open>C9 on the four images: \<open>d.png\<close>, 50 by 10 at (60, 60), ends at (110, 70) in a sheet of
  120 by 120.\<close>

theorem C9_images_inside_sheet_witness:
  "map width (four_first # four_rest) = [50, 40, 20, 50] \<and>
   map height (four_first # four_rest) = [50, 30, 50, 10] \<and>
   0 \<le> padding padded_options \<and>
   json_document (generateSpriteFromDirectory all_calls_succeed (four_first # four_rest) padded_options) = Some four_document \<and>
   lookup (json_images four_document) ''d.png'' =
     Some \<lparr>pos_x = 60, pos_y = 60, pos_width = 50, pos_height = 10\<rparr> \<and>
   (60::int) + 50 \<le> json_spriteWidth four_document \<and>
   (60::int) + 10 \<le> json_spriteHeight four_document"
proof -
  have a: "\<forall>m\<in>set (four_first # four_rest). 0 < width m \<and> 0 < height m"
    by (simp add: four_first_def four_rest_def picture_def)
  have b: "0 \<le> padding padded_options"
    by (simp add: padded_options_def default_options_def)
  have d: "json_document (generateSpriteFromDirectory all_calls_succeed (four_first # four_rest) padded_options) = Some four_document"
    by (simp add: four_run json_document_def)
  have e: "lookup (json_images four_document) ''d.png'' =
     Some \<lparr>pos_x = 60, pos_y = 60, pos_width = 50, pos_height = 10\<rparr>"
    by (simp add: four_document_def lookup_def)
  from C9_images_inside_sheet[OF a b]
  have "\<forall>d k e. json_document (generateSpriteFromDirectory all_calls_succeed (four_first # four_rest) padded_options) = Some d \<and>
               lookup (json_images d) k = Some e \<longrightarrow>
               0 \<le> pos_x e \<and> pos_x e + pos_width e \<le> json_spriteWidth d \<and>
               0 \<le> pos_y e \<and> pos_y e + pos_height e \<le> json_spriteHeight d"
    unfolding Let_def by blast
  with d e have "(60::int) + 50 \<le> json_spriteWidth four_document \<and>
      (60::int) + 10 \<le> json_spriteHeight four_document"
    by fastforce
  moreover have "map width (four_first # four_rest) = [50, 40, 20, 50]"
    "map height (four_first # four_rest) = [50, 30, 50, 10]"
    by (simp_all add: four_first_def four_rest_def picture_def)
  ultimately show ?thesis using b d e by blast
qed

text \<open>
  C10. The keys of \<open>images\<close> in the document are exactly the file names of the input
  records, each once; so there are at most as many entries as records, and as many
  exactly when the file names are pairwise distinct.
\<close>

theorem C10_keys_are_filenames:
  assumes "json_document (generateSpriteFromDirectory env (img # rest) opts) = Some d"
  shows "let recs = img # rest
         in set (keys (json_images d)) = filename ` set recs \<and>
            distinct (keys (json_images d)) \<and>
            length (json_images d) = card (filename ` set recs) \<and>
            length (json_images d) \<le> length recs \<and>
            (length (json_images d) = length recs \<longleftrightarrow> distinct (map filename recs))"
proof -
  let ?recs = "img # rest"
  from json_document_generate[OF assms]
  have im: "json_images d = fold (\<lambda>j. assign (filename (?recs ! j))
        (entry_at (layout img rest opts) ?recs j)) [0..<length ?recs] []"
    by simp
  have k: "set (keys (json_images d)) = filename ` set ?recs"
    unfolding im by (rule keys_images)
  have dk: "distinct (keys (json_images d))"
    unfolding im
    by (rule distinct_keys_fold_assign[where f = "\<lambda>j. filename (?recs ! j)"]) (simp add: keys_def)
  have len: "length (json_images d) = card (filename ` set ?recs)"
    unfolding im by (rule length_images)
  show ?thesis
    unfolding Let_def
    using k dk len card_filenames(1,2)[of ?recs] by simp
qed

text \<open>C10 on the four images (four names, four entries) and on the two records with one
  name (one key, fewer entries than records).\<close>

theorem C10_keys_are_filenames_witness:
  "json_document (generateSpriteFromDirectory all_calls_succeed (four_first # four_rest) padded_options) = Some four_document \<and>
   keys (json_images four_document) = [''a.png'', ''b.png'', ''c.png'', ''d.png''] \<and>
   length (json_images four_document) = length (four_first # four_rest) \<and>
   json_document (generateSpriteFromDirectory all_calls_succeed twins default_options) = Some twins_document \<and>
   keys (json_images twins_document) = [''a.png''] \<and>
   length (json_images twins_document) < length twins"
proof -
  have d4: "json_document (generateSpriteFromDirectory all_calls_succeed (four_first # four_rest) padded_options) = Some four_document"
    by (simp add: four_run json_document_def)
  have d2: "json_document (generateSpriteFromDirectory all_calls_succeed (picture ''a.png'' 10 10 # [picture ''a.png'' 20 20])
      default_options) = Some twins_document"
    using twins_run by (simp add: json_document_def twins_def)
  have "length (json_images four_document) \<le> length (four_first # four_rest)"
    using C10_keys_are_filenames[OF d4] unfolding Let_def by blast
  moreover have "length (json_images twins_document) \<le> length twins"
    using C10_keys_are_filenames[OF d2] unfolding Let_def twins_def by blast
  ultimately show ?thesis
    using d4 d2 by (simp add: four_document_def twins_document_def twins_def keys_def four_rest_def)
qed

end
